theory Spec2Isabelle
  imports Main "HOL-Library.Sublist"
begin

section \<open>Book model (epub\_repair/models.py)\<close>

text \<open>
  Paths are modelled as strings. The manifest is a Python dict: lookups go through
  \<open>map_of\<close>, iteration (\<open>.values()\<close>) follows the order of the association list.
\<close>

type_synonym path = string

record SpineItem =
  idref :: string
  href :: path

record ManifestItem =
  mid :: string
  mhref :: path
  media_type :: string

record EpubBook =
  root_path :: path
  opf_path :: path
  spine_items :: "SpineItem list"
  manifest_items :: "(string \<times> ManifestItem) list"

text \<open>
  \<open>EpubBook.get_xhtml_files\<close>: the loop over \<open>self.spine_items\<close>, appending
  \<open>spine_item.href\<close> when \<open>self.manifest_items.get(spine_item.idref)\<close> is an item
  (an instance of a dataclass is always truthy) of media type application/xhtml+xml.
\<close>

fun get_xhtml_files_loop :: "(string \<times> ManifestItem) list \<Rightarrow> SpineItem list \<Rightarrow> path list \<Rightarrow> path list" where
  "get_xhtml_files_loop m [] xhtml_files = xhtml_files"
| "get_xhtml_files_loop m (spine_item # rest) xhtml_files =
     (case map_of m (idref spine_item) of
        None \<Rightarrow> get_xhtml_files_loop m rest xhtml_files
      | Some manifest_item \<Rightarrow>
          if media_type manifest_item = ''application/xhtml+xml''
          then get_xhtml_files_loop m rest (xhtml_files @ [href spine_item])
          else get_xhtml_files_loop m rest xhtml_files)"

definition get_xhtml_files :: "EpubBook \<Rightarrow> path list" where
  "get_xhtml_files book = get_xhtml_files_loop (manifest_items book) (spine_items book) []"

text \<open>The spine items a content document is made from, as the claim words them.\<close>

definition is_content_document :: "EpubBook \<Rightarrow> SpineItem \<Rightarrow> bool" where
  "is_content_document book s =
     (case map_of (manifest_items book) (idref s) of
        None \<Rightarrow> False
      | Some item \<Rightarrow> media_type item = ''application/xhtml+xml'')"

section \<open>Python strings\<close>

text \<open>
  A string is the list of the bytes of its UTF-8 encoding. \<open>whitespace\<close> lists the
  encodings of the characters that \<open>str.isspace\<close>, \<open>str.strip\<close> and the
  regular-expression class \<open>\s\<close> take as white space: U+0009..U+000D, U+001C..U+001F,
  U+0020, U+0085, U+00A0, U+1680, U+2000..U+200A, U+2028, U+2029, U+202F, U+205F and
  U+3000.
\<close>

definition whitespace :: "string list" where
  "whitespace =
     [[CHR 0x09], [CHR 0x0A], [CHR 0x0B], [CHR 0x0C], [CHR 0x0D],
      [CHR 0x1C], [CHR 0x1D], [CHR 0x1E], [CHR 0x1F], [CHR 0x20],
      [CHR 0xC2, CHR 0x85], [CHR 0xC2, CHR 0xA0], [CHR 0xE1, CHR 0x9A, CHR 0x80],
      [CHR 0xE2, CHR 0x80, CHR 0x80], [CHR 0xE2, CHR 0x80, CHR 0x81], [CHR 0xE2, CHR 0x80, CHR 0x82],
      [CHR 0xE2, CHR 0x80, CHR 0x83], [CHR 0xE2, CHR 0x80, CHR 0x84], [CHR 0xE2, CHR 0x80, CHR 0x85],
      [CHR 0xE2, CHR 0x80, CHR 0x86], [CHR 0xE2, CHR 0x80, CHR 0x87], [CHR 0xE2, CHR 0x80, CHR 0x88],
      [CHR 0xE2, CHR 0x80, CHR 0x89], [CHR 0xE2, CHR 0x80, CHR 0x8A],
      [CHR 0xE2, CHR 0x80, CHR 0xA8], [CHR 0xE2, CHR 0x80, CHR 0xA9], [CHR 0xE2, CHR 0x80, CHR 0xAF],
      [CHR 0xE2, CHR 0x81, CHR 0x9F], [CHR 0xE3, CHR 0x80, CHR 0x80]]"

text \<open>
  Dropping from the front of a string every leading character whose encoding is in the
  table. \<open>str.strip\<close> does so at both ends; at the end of the string the encodings are
  matched backwards.
\<close>

function strip_left :: "string list \<Rightarrow> string \<Rightarrow> string" where
  "strip_left table s =
     (case find (\<lambda>w. w \<noteq> [] \<and> prefix w s) table of
        None \<Rightarrow> s
      | Some w \<Rightarrow> strip_left table (drop (length w) s))"
  by pat_completeness auto
termination
  by (relation "measure (\<lambda>(table, s). length s)") (auto simp: find_Some_iff prefix_def)

declare strip_left.simps [simp del]

definition lstrip :: "string \<Rightarrow> string" where
  "lstrip s = strip_left whitespace s"

definition rstrip :: "string \<Rightarrow> string" where
  "rstrip s = rev (strip_left (map rev whitespace) (rev s))"

definition strip :: "string \<Rightarrow> string" where
  "strip s = rstrip (lstrip s)"

text \<open>
  \<open>str.lower\<close>, as far as a comparison with a word of ASCII letters can tell: the
  letters A..Z, and the two other characters whose lower-case form holds an ASCII
  letter, the Kelvin sign U+212A (to \<open>k\<close>) and the dotted capital I U+0130 (to \<open>i\<close>
  followed by U+0307). Every other character is left as it is; its lower-case form,
  where it has one, is outside ASCII as well, and the rules compare lower-cased text with
  ASCII words only.
\<close>

definition lower_char :: "char \<Rightarrow> char" where
  "lower_char c = (let n = of_char c :: nat in if 65 \<le> n \<and> n \<le> 90 then char_of (n + 32) else c)"

function lower :: "string \<Rightarrow> string" where
  "lower s =
     (if s = [] then []
      else if prefix [CHR 0xE2, CHR 0x84, CHR 0xAA] s then CHR ''k'' # lower (drop 3 s)
      else if prefix [CHR 0xC4, CHR 0xB0] s then [CHR ''i'', CHR 0xCC, CHR 0x87] @ lower (drop 2 s)
      else lower_char (hd s) # lower (tl s))"
  by pat_completeness auto
termination
  by (relation "measure length") auto

declare lower.simps [simp del]

text \<open>\<open>sub in s\<close> for strings: \<open>sub\<close> occurs in \<open>s\<close> as a contiguous substring.\<close>

fun py_in :: "string \<Rightarrow> string \<Rightarrow> bool" where
  "py_in sub [] = (sub = [])"
| "py_in sub (c # cs) = (prefix sub (c # cs) \<or> py_in sub cs)"

text \<open>\<open>x or ""\<close> for an optional string.\<close>

definition or_empty :: "string option \<Rightarrow> string" where
  "or_empty x = (case x of None \<Rightarrow> [] | Some s \<Rightarrow> s)"

text \<open>The digits 0..9; the digits of other scripts are not modelled.\<close>

definition is_digit :: "char \<Rightarrow> bool" where
  "is_digit c = (let n = of_char c :: nat in 48 \<le> n \<and> n \<le> 57)"

text \<open>\<open>str.isdigit\<close>: non-empty and all characters digits.\<close>

definition isdigit :: "string \<Rightarrow> bool" where
  "isdigit s = (s \<noteq> [] \<and> list_all is_digit s)"

text \<open>Decimal rendering of a non-negative integer, as an f-string prints it.\<close>

definition digit_char :: "nat \<Rightarrow> char" where
  "digit_char d = char_of (48 + d)"

function str_nat :: "nat \<Rightarrow> string" where
  "str_nat n = (if n < 10 then [digit_char n] else str_nat (n div 10) @ [digit_char (n mod 10)])"
  by pat_completeness auto
termination
  by (relation "measure (\<lambda>n. n)") auto

declare str_nat.simps [simp del]

section \<open>NCX to navigation document (epub\_upgrade/nav\_conversion.py)\<close>

text \<open>
  An \<open>xml.etree\<close> element: tag, attributes, leading text and children. A tag in the NCX
  namespace is written with the prefix \<open>ncx:\<close>.
\<close>

datatype xml = Xml (xtag: string) (xattrib: "(string \<times> string) list") (xtext: "string option") (xkids: "xml list")

text \<open>\<open>e.find(tag)\<close>: the first child with that tag; \<open>e.findall(tag)\<close>: all such children.\<close>

definition find_child :: "string \<Rightarrow> xml \<Rightarrow> xml option" where
  "find_child t e = List.find (\<lambda>c. xtag c = t) (xkids e)"

definition findall_children :: "string \<Rightarrow> xml \<Rightarrow> xml list" where
  "findall_children t e = filter (\<lambda>c. xtag c = t) (xkids e)"

text \<open>\<open>e.findall(".//tag")\<close>: all descendants with that tag, in document order.\<close>

fun findall_descendants :: "string \<Rightarrow> xml \<Rightarrow> xml list" where
  "findall_descendants t (Xml tg a tx ks) =
     concat (map (\<lambda>k. (if xtag k = t then [k] else []) @ findall_descendants t k) ks)"

text \<open>\<open>e.find(".//tag")\<close>: the first such descendant.\<close>

definition find_descendant :: "string \<Rightarrow> xml \<Rightarrow> xml option" where
  "find_descendant t e = (case findall_descendants t e of [] \<Rightarrow> None | x # _ \<Rightarrow> Some x)"

lemma size_filter_kids_le:
  "size_list size (filter P ks) \<le> size_list size ks"
  by (induction ks) auto

lemma size_findall_children_less:
  "size_list size (findall_children t e) < size e"
proof (cases e)
  case (Xml tg a tx ks)
  have "size_list size (filter (\<lambda>c. xtag c = t) ks) \<le> size_list size ks"
    by (rule size_filter_kids_le)
  then show ?thesis
    using Xml by (simp add: findall_children_def)
qed

lemma size_findall_children_less_Suc:
  "size_list size (findall_children t e) < Suc (size e + n)"
  using size_findall_children_less [of t e] by arith

text \<open>
  \<open>_convert_nav_points(nav_points, parent_ol, ncx_ns)\<close>. The result is the list of
  \<open>li\<close> elements the call appends to \<open>parent_ol\<close>.
\<close>

function convert_nav_points :: "xml list \<Rightarrow> xml list" where
  "convert_nav_points [] = []"
| "convert_nav_points (nav_point # rest) =
     (case find_child ''ncx:navLabel'' nav_point of
        None \<Rightarrow> convert_nav_points rest
      | Some nav_label \<Rightarrow>
          (case find_child ''ncx:content'' nav_point of
             None \<Rightarrow> convert_nav_points rest
           | Some content \<Rightarrow>
               (case find_child ''ncx:text'' nav_label of
                  None \<Rightarrow> convert_nav_points rest
                | Some label_text \<Rightarrow>
                    (let text = or_empty (xtext label_text);
                         src = or_empty (map_of (xattrib content) ''src'');
                         a = Xml ''a'' [(''href'', src)] (Some text) [];
                         child_nav_points = findall_children ''ncx:navPoint'' nav_point;
                         li = Xml ''li'' [] None
                                (if child_nav_points \<noteq> []
                                 then [a, Xml ''ol'' [] None (convert_nav_points child_nav_points)]
                                 else [a])
                     in li # convert_nav_points rest))))"
  by pat_completeness auto
termination
  by (relation "measure (size_list size)")
     (auto simp: size_findall_children_less_Suc)

datatype exc = ValueError string | TypeError string | AttributeError string | ParseFailure string

definition exc_str :: "exc \<Rightarrow> string" where
  "exc_str e = (case e of ValueError m \<Rightarrow> m | TypeError m \<Rightarrow> m | AttributeError m \<Rightarrow> m | ParseFailure m \<Rightarrow> m)"

text \<open>
  \<open>convert_ncx_to_nav_xhtml\<close>, from the parsed NCX root to the tree that is written
  to nav.xhtml. The top-level list is built from \<open>nav_map.findall(".//ncx:navPoint")\<close>.
\<close>

definition convert_ncx_to_nav_xhtml :: "xml \<Rightarrow> exc + xml" where
  "convert_ncx_to_nav_xhtml ncx_root =
     (case find_descendant ''ncx:navMap'' ncx_root of
        None \<Rightarrow> Inl (ValueError ''No navMap found in NCX'')
      | Some nav_map \<Rightarrow>
          (let title = Xml ''title'' [] (Some ''Table of Contents'') [];
               head = Xml ''head'' [] None [title];
               h1 = Xml ''h1'' [] (Some ''Table of Contents'') [];
               ol = Xml ''ol'' [] None (convert_nav_points (findall_descendants ''ncx:navPoint'' nav_map));
               nav = Xml ''nav'' [(''epub:type'', ''toc'')] None [h1, ol];
               body = Xml ''body'' [] None [nav]
           in Inr (Xml ''html'' [(''xmlns'', ''http://www.w3.org/1999/xhtml''),
                                 (''xmlns_epub'', ''http://www.idpf.org/2007/ops'')] None [head, body])))"

text \<open>
  The navigation list that mirrors a list of NCX entries: one item per entry, holding the
  link and, for an entry with child entries, the nested list of the children.
\<close>

fun mirror_entry :: "xml \<Rightarrow> xml" where
  "mirror_entry (Xml tg a tx ks) =
     (let label = or_empty (case List.find (\<lambda>c. xtag c = ''ncx:navLabel'') ks of
                              None \<Rightarrow> None
                            | Some l \<Rightarrow> (case find_child ''ncx:text'' l of None \<Rightarrow> None | Some t \<Rightarrow> xtext t));
          src = or_empty (case List.find (\<lambda>c. xtag c = ''ncx:content'') ks of
                            None \<Rightarrow> None
                          | Some c \<Rightarrow> map_of (xattrib c) ''src'');
          link = Xml ''a'' [(''href'', src)] (Some label) [];
          subs = map mirror_entry (filter (\<lambda>c. xtag c = ''ncx:navPoint'') ks)
      in Xml ''li'' [] None (if subs \<noteq> [] then [link, Xml ''ol'' [] None subs] else [link]))"

definition mirror_nav_map :: "xml \<Rightarrow> xml list" where
  "mirror_nav_map nav_map = map mirror_entry (findall_children ''ncx:navPoint'' nav_map)"

text \<open>An NCX with one entry (Part I) that has one child entry (Chapter 1).\<close>

definition ncx_entry :: "string \<Rightarrow> string \<Rightarrow> xml list \<Rightarrow> xml" where
  "ncx_entry label src subs =
     Xml ''ncx:navPoint'' [] None
       ([Xml ''ncx:navLabel'' [] None [Xml ''ncx:text'' [] (Some label) []],
         Xml ''ncx:content'' [(''src'', src)] None []] @ subs)"

definition nested_nav_map :: xml where
  "nested_nav_map = Xml ''ncx:navMap'' [] None
     [ncx_entry ''Part I'' ''part1.xhtml'' [ncx_entry ''Chapter 1'' ''ch1.xhtml'' []]]"

definition nested_ncx :: xml where
  "nested_ncx = Xml ''ncx:ncx'' [] None [Xml ''ncx:head'' [] None [], nested_nav_map]"

definition nav_link :: "string \<Rightarrow> string \<Rightarrow> xml" where
  "nav_link label src = Xml ''a'' [(''href'', src)] (Some label) []"

section \<open>Reporter (epub\_repair/reporting.py)\<close>

text \<open>
  \<open>counters\<close> is the dict category \<open>\<rightarrow>\<close> count, \<open>changes\<close> the list of logged changes
  (file, description); no rule passes the optional \<open>details\<close>.
\<close>

record Reporter =
  counters :: "string \<Rightarrow> nat option"
  changes :: "(path \<times> string) list"

definition new_reporter :: Reporter where
  "new_reporter = \<lparr>counters = (\<lambda>_. None), changes = []\<rparr>"

definition increment :: "Reporter \<Rightarrow> string \<Rightarrow> nat \<Rightarrow> Reporter" where
  "increment rep category count =
     rep\<lparr>counters := (counters rep)(category :=
            Some ((case counters rep category of None \<Rightarrow> 0 | Some n \<Rightarrow> n) + count))\<rparr>"

definition log_change :: "Reporter \<Rightarrow> path \<Rightarrow> string \<Rightarrow> Reporter" where
  "log_change rep file_path description = rep\<lparr>changes := changes rep @ [(file_path, description)]\<rparr>"

section \<open>Stylesheets (tinycss2 as used by epub\_repair/css\_processor.py)\<close>

text \<open>
  \<open>parse_css\<close> is \<open>tinycss2.parse_stylesheet\<close>: a list of qualified rules, at-rules and
  parse errors. The prelude of a rule is kept as its serialization. The
  \<open>content\<close> of a rule is the list of component values between the braces (an at-rule
  without a block has content \<open>None\<close>); \<open>parse_stylesheet\<close> does not parse it into
  declarations.
\<close>

datatype component =
    WhitespaceToken string
  | LiteralToken string
  | IdentToken string
  | AtKeywordToken string
  | HashToken string
  | StringToken string
  | URLToken string
  | NumberToken string
  | PercentageToken string
  | DimensionToken string string
  | UnicodeRangeToken
  | ParenthesesBlock "component list"
  | SquareBracketsBlock "component list"
  | CurlyBracketsBlock "component list"
  | FunctionBlock string "component list"
  | ParseErrorNode
  | CommentNode string

datatype css_rule =
    QualifiedRule string "component list"
  | AtRule string string "component list option"
  | ParseErrorRule

text \<open>
  The attributes the cleanup rules probe with \<open>hasattr\<close>. Among the component values
  only a function block has a \<open>name\<close>; it has \<open>arguments\<close> but no \<open>value\<close>.
  \<open>value_str\<close> is \<open>str(decl.value)\<close>, \<open>None\<close> where the attribute access raises; a
  numeric token carries the printed form of its number.
\<close>

definition hasattr_name :: "component \<Rightarrow> bool" where
  "hasattr_name d = (case d of FunctionBlock n args \<Rightarrow> True | _ \<Rightarrow> False)"

definition name_of :: "component \<Rightarrow> string" where
  "name_of d = (case d of FunctionBlock n args \<Rightarrow> n | _ \<Rightarrow> [])"

definition value_str :: "component \<Rightarrow> string option" where
  "value_str d = (case d of
       WhitespaceToken v \<Rightarrow> Some v
     | LiteralToken v \<Rightarrow> Some v
     | IdentToken v \<Rightarrow> Some v
     | AtKeywordToken v \<Rightarrow> Some v
     | HashToken v \<Rightarrow> Some v
     | StringToken v \<Rightarrow> Some v
     | URLToken v \<Rightarrow> Some v
     | NumberToken v \<Rightarrow> Some v
     | PercentageToken v \<Rightarrow> Some v
     | DimensionToken v u \<Rightarrow> Some v
     | CommentNode v \<Rightarrow> Some v
     | _ \<Rightarrow> None)"

definition hasattr_prelude :: "css_rule \<Rightarrow> bool" where
  "hasattr_prelude r = (case r of ParseErrorRule \<Rightarrow> False | _ \<Rightarrow> True)"

definition hasattr_content :: "css_rule \<Rightarrow> bool" where
  "hasattr_content r = (case r of ParseErrorRule \<Rightarrow> False | _ \<Rightarrow> True)"

definition get_selector_text :: "css_rule \<Rightarrow> string" where
  "get_selector_text r = (case r of
       QualifiedRule prelude c \<Rightarrow> strip prelude
     | AtRule k prelude c \<Rightarrow> strip prelude
     | ParseErrorRule \<Rightarrow> [])"

section \<open>CSS cleanup (epub\_repair/rules/css\_cleanup.py)\<close>

definition is_absolute_size :: "component \<Rightarrow> bool" where
  "is_absolute_size decl = (case value_str decl of
       None \<Rightarrow> False
     | Some v \<Rightarrow> (let value_text = lower v in py_in ''px'' value_text \<or> py_in ''pt'' value_text))"

text \<open>
  \<open>float(value_text) < 1.2\<close> for a string of digits and dots with at least one digit.
  \<open>float\<close> raises on more than one dot (\<open>None\<close>). Otherwise the string denotes the
  decimal \<open>n / 10^k\<close>, which \<open>float\<close> rounds to the nearest double. The double 1.2 is
  \<open>5404319552844595 / 2^52\<close>, its significand is odd, so the decimals that round below it
  are those not above the midpoint \<open>10808639105689189 / 2^53\<close> to its predecessor.
\<close>

definition nat_of_digits :: "string \<Rightarrow> nat" where
  "nat_of_digits s = foldl (\<lambda>a c. 10 * a + (of_char c - 48)) 0 s"

definition float_lt_1_2 :: "string \<Rightarrow> bool option" where
  "float_lt_1_2 value_text =
     (if length (filter (\<lambda>c. c = CHR ''.'') value_text) > 1 then None
      else (let n = nat_of_digits (filter (\<lambda>c. c \<noteq> CHR ''.'') value_text);
                k = length (takeWhile (\<lambda>c. c \<noteq> CHR ''.'') (rev value_text));
                k = (if CHR ''.'' \<in> set value_text then k else 0)
            in Some (n * 9007199254740992 \<le> 10808639105689189 * 10 ^ k)))"

definition is_fixed_line_height :: "component \<Rightarrow> bool" where
  "is_fixed_line_height decl = (case value_str decl of
       None \<Rightarrow> False
     | Some v \<Rightarrow> (let value_text = lower v in
         if py_in ''px'' value_text \<or> py_in ''pt'' value_text then True
         else if isdigit (filter (\<lambda>c. c \<noteq> CHR ''.'') value_text)
              then (case float_lt_1_2 value_text of None \<Rightarrow> False | Some b \<Rightarrow> b)
              else False))"

definition is_flex_or_grid :: "component \<Rightarrow> bool" where
  "is_flex_or_grid decl = (case value_str decl of
       None \<Rightarrow> False
     | Some v \<Rightarrow> (let value_text = lower v in py_in ''flex'' value_text \<or> py_in ''grid'' value_text))"

text \<open>
  The three loops of \<open>simplify_css_safe\<close> and the loop of \<open>simplify_css_aggressive\<close>
  have one shape: for each rule selected by \<open>guard\<close>, replace its content by the
  components that \<open>dropped\<close> does not select, and add the number removed to the running
  count. \<open>len(rule.content)\<close> raises TypeError on an at-rule without a block; the count
  and the flag reached so far are kept.
\<close>

fun drop_loop :: "(css_rule \<Rightarrow> bool) \<Rightarrow> (component \<Rightarrow> bool) \<Rightarrow> css_rule list \<Rightarrow> nat \<Rightarrow> bool
    \<Rightarrow> exc option \<times> css_rule list \<times> nat \<times> bool" where
  "drop_loop guard dropped [] count changed = (None, [], count, changed)"
| "drop_loop guard dropped (rule # rest) count changed =
     (if guard rule then
        (case rule of
           ParseErrorRule \<Rightarrow>
             (case drop_loop guard dropped rest count changed of
                (e, rs, n, ch) \<Rightarrow> (e, rule # rs, n, ch))
         | AtRule k prelude None \<Rightarrow>
             (Some (TypeError ''object of type 'NoneType' has no len()''), rule # rest, count, changed)
         | AtRule k prelude (Some content) \<Rightarrow>
             (let content' = filter (\<lambda>decl. \<not> dropped decl) content;
                  removed = length content - length content'
              in case drop_loop guard dropped rest
                        (if removed > 0 then count + removed else count)
                        (if removed > 0 then True else changed) of
                   (e, rs, n, ch) \<Rightarrow> (e, AtRule k prelude (Some content') # rs, n, ch))
         | QualifiedRule prelude content \<Rightarrow>
             (let content' = filter (\<lambda>decl. \<not> dropped decl) content;
                  removed = length content - length content'
              in case drop_loop guard dropped rest
                        (if removed > 0 then count + removed else count)
                        (if removed > 0 then True else changed) of
                   (e, rs, n, ch) \<Rightarrow> (e, QualifiedRule prelude content' # rs, n, ch)))
      else (case drop_loop guard dropped rest count changed of
              (e, rs, n, ch) \<Rightarrow> (e, rule # rs, n, ch)))"

definition font_size_guard :: "css_rule \<Rightarrow> bool" where
  "font_size_guard rule =
     (hasattr_prelude rule \<and> get_selector_text rule \<in> {''body'', ''html''} \<and> hasattr_content rule)"

definition font_size_dropped :: "component \<Rightarrow> bool" where
  "font_size_dropped decl = (hasattr_name decl \<and> name_of decl = ''font-size'' \<and> is_absolute_size decl)"

definition line_height_dropped :: "component \<Rightarrow> bool" where
  "line_height_dropped decl = (hasattr_name decl \<and> name_of decl = ''line-height'' \<and> is_fixed_line_height decl)"

definition display_dropped :: "component \<Rightarrow> bool" where
  "display_dropped decl = (hasattr_name decl \<and> name_of decl = ''display'' \<and> is_flex_or_grid decl)"

definition font_family_dropped :: "component \<Rightarrow> bool" where
  "font_family_dropped decl = (hasattr_name decl \<and> name_of decl = ''font-family'')"

text \<open>
  The body of the \<open>try\<close> block of \<open>simplify_css_safe\<close> for one stylesheet, from the
  parsed rules to the decision to write. The result is the running count
  \<open>properties_removed\<close> and either the exception raised or the rules and \<open>changed\<close>.
\<close>

definition safe_css_body :: "css_rule list \<Rightarrow> nat \<Rightarrow> nat \<times> (exc + css_rule list \<times> bool)" where
  "safe_css_body rules properties_removed =
     (case drop_loop font_size_guard font_size_dropped rules properties_removed False of
        (Some e, rs, n, ch) \<Rightarrow> (n, Inl e)
      | (None, rs1, n1, ch1) \<Rightarrow>
          (case drop_loop hasattr_content line_height_dropped rs1 n1 ch1 of
             (Some e, rs, n, ch) \<Rightarrow> (n, Inl e)
           | (None, rs2, n2, ch2) \<Rightarrow>
               (case drop_loop hasattr_content display_dropped rs2 n2 ch2 of
                  (Some e, rs, n, ch) \<Rightarrow> (n, Inl e)
                | (None, rs3, n3, ch3) \<Rightarrow> (n3, Inr (rs3, ch3)))))"

definition aggressive_css_body :: "css_rule list \<Rightarrow> nat \<Rightarrow> nat \<times> (exc + css_rule list \<times> bool)" where
  "aggressive_css_body rules font_families_removed =
     (case drop_loop hasattr_content font_family_dropped rules font_families_removed False of
        (Some e, rs, n, ch) \<Rightarrow> (n, Inl e)
      | (None, rs1, n1, ch1) \<Rightarrow> (n1, Inr (rs1, ch1)))"

text \<open>
  The rule \<open>body { font-size: 12px; line-height: 1.0; font-family: serif; }\<close> as
  \<open>parse_stylesheet\<close> returns it.
\<close>

definition body_rule :: css_rule where
  "body_rule = QualifiedRule ''body ''
     [WhitespaceToken '' '', IdentToken ''font-size'', LiteralToken '':'', WhitespaceToken '' '',
      DimensionToken ''12.0'' ''px'', LiteralToken '';'', WhitespaceToken '' '',
      IdentToken ''line-height'', LiteralToken '':'', WhitespaceToken '' '',
      NumberToken ''1.0'', LiteralToken '';'', WhitespaceToken '' '',
      IdentToken ''font-family'', LiteralToken '':'', WhitespaceToken '' '',
      IdentToken ''serif'', LiteralToken '';'', WhitespaceToken '' '']"

section \<open>Content document trees (lxml elements)\<close>

text \<open>
  The rules mutate lxml trees in place and keep references to elements across mutations,
  so the tree is an explicit store: an element is a cell of the store, a reference to it
  is its index, and \<open>eparent\<close> / \<open>ekids\<close> are the links lxml maintains. As in lxml, the
  tail text belongs to the element and travels with it. References never dangle in
  Python; correspondingly every index used below is the index of a cell of the store.
\<close>

record element =
  etag :: string
  eattrib :: "(string \<times> string) list"
  etext :: "string option"
  etail :: "string option"
  eparent :: "nat option"
  ekids :: "nat list"

type_synonym store = "element list"

text \<open>\<open>etree.Element(tag)\<close>: a new cell, linked to nothing.\<close>

definition new_element :: "store \<Rightarrow> string \<Rightarrow> store \<times> nat" where
  "new_element st tag =
     (st @ [\<lparr>etag = tag, eattrib = [], etext = None, etail = None, eparent = None, ekids = []\<rparr>],
      length st)"

definition getparent :: "store \<Rightarrow> nat \<Rightarrow> nat option" where
  "getparent st n = eparent (st ! n)"

fun next_in :: "nat \<Rightarrow> nat list \<Rightarrow> nat option" where
  "next_in n [] = None"
| "next_in n [k] = None"
| "next_in n (k # k' # ks) = (if k = n then Some k' else next_in n (k' # ks))"

definition getnext :: "store \<Rightarrow> nat \<Rightarrow> nat option" where
  "getnext st n = (case eparent (st ! n) of None \<Rightarrow> None | Some p \<Rightarrow> next_in n (ekids (st ! p)))"

text \<open>\<open>list.index\<close> on a list that holds the element.\<close>

definition index_of :: "nat \<Rightarrow> nat list \<Rightarrow> nat" where
  "index_of n ks = length (takeWhile (\<lambda>k. k \<noteq> n) ks)"

text \<open>\<open>e.get(key, default)\<close>, \<open>e.set(key, value)\<close> and \<open>e.attrib.pop(key, None)\<close>.\<close>

definition get_attr :: "store \<Rightarrow> nat \<Rightarrow> string \<Rightarrow> string \<Rightarrow> string" where
  "get_attr st n key dflt = (case map_of (eattrib (st ! n)) key of None \<Rightarrow> dflt | Some v \<Rightarrow> v)"

fun alist_set :: "string \<Rightarrow> string \<Rightarrow> (string \<times> string) list \<Rightarrow> (string \<times> string) list" where
  "alist_set key v [] = [(key, v)]"
| "alist_set key v ((k, w) # al) = (if k = key then (k, v) # al else (k, w) # alist_set key v al)"

definition set_attr :: "store \<Rightarrow> nat \<Rightarrow> string \<Rightarrow> string \<Rightarrow> store" where
  "set_attr st n key v = st[n := (st ! n)\<lparr>eattrib := alist_set key v (eattrib (st ! n))\<rparr>]"

definition pop_attr :: "store \<Rightarrow> nat \<Rightarrow> string \<Rightarrow> store" where
  "pop_attr st n key = st[n := (st ! n)\<lparr>eattrib := filter (\<lambda>(k, w). k \<noteq> key) (eattrib (st ! n))\<rparr>]"

text \<open>Unlinking an element from its parent, as every lxml operation that moves it does.\<close>

definition unlink :: "store \<Rightarrow> nat \<Rightarrow> store" where
  "unlink st c =
     (case eparent (st ! c) of
        None \<Rightarrow> st
      | Some p \<Rightarrow>
          (let st1 = st[p := (st ! p)\<lparr>ekids := remove1 c (ekids (st ! p))\<rparr>]
           in st1[c := (st1 ! c)\<lparr>eparent := None\<rparr>]))"

text \<open>\<open>parent.remove(child)\<close>: ValueError unless \<open>child\<close> is a child of \<open>parent\<close>.\<close>

definition remove_child :: "store \<Rightarrow> nat \<Rightarrow> nat \<Rightarrow> exc + store" where
  "remove_child st p c =
     (if eparent (st ! c) = Some p then Inr (unlink st c)
      else Inl (ValueError ''Element is not a child of this node.''))"

text \<open>\<open>parent.insert(index, child)\<close>, with the clamping of Python list insertion.\<close>

definition insert_child :: "store \<Rightarrow> nat \<Rightarrow> nat \<Rightarrow> nat \<Rightarrow> store" where
  "insert_child st p idx c =
     (let st1 = unlink st c;
          ks = ekids (st1 ! p);
          st2 = st1[p := (st1 ! p)\<lparr>ekids := take idx ks @ [c] @ drop idx ks\<rparr>]
      in st2[c := (st2 ! c)\<lparr>eparent := Some p\<rparr>])"

definition append_child :: "store \<Rightarrow> nat \<Rightarrow> nat \<Rightarrow> store" where
  "append_child st p c =
     (let st1 = unlink st c;
          st2 = st1[p := (st1 ! p)\<lparr>ekids := ekids (st1 ! p) @ [c]\<rparr>]
      in st2[c := (st2 ! c)\<lparr>eparent := Some p\<rparr>])"

text \<open>\<open>parent.replace(old, new)\<close>: each element keeps its own tail.\<close>

definition replace_child :: "store \<Rightarrow> nat \<Rightarrow> nat \<Rightarrow> nat \<Rightarrow> exc + store" where
  "replace_child st p old new =
     (if eparent (st ! old) \<noteq> Some p then Inl (ValueError ''Element is not a child of this node.'')
      else (let st1 = unlink st new;
                st2 = st1[p := (st1 ! p)\<lparr>ekids := map (\<lambda>k. if k = old then new else k) (ekids (st1 ! p))\<rparr>];
                st3 = st2[old := (st2 ! old)\<lparr>eparent := None\<rparr>]
            in Inr (st3[new := (st3 ! new)\<lparr>eparent := Some p\<rparr>])))"

text \<open>
  \<open>e.addprevious(new)\<close>: \<open>new\<close> becomes the sibling right before \<open>e\<close>; an element
  cannot become a sibling of an element without a parent (TypeError).
\<close>

definition addprevious :: "store \<Rightarrow> nat \<Rightarrow> nat \<Rightarrow> exc + store" where
  "addprevious st e new =
     (case eparent (st ! e) of
        None \<Rightarrow> Inl (TypeError ''Only processing instructions and comments can be siblings of the root element'')
      | Some p \<Rightarrow>
          (let st1 = unlink st new
           in Inr (insert_child st1 p (index_of e (ekids (st1 ! p))) new)))"

text \<open>
  Document order. The traversal descends along \<open>ekids\<close>; its depth is bounded by the
  number of cells of the store, which is what the fuel is set to.
\<close>

fun preorder :: "nat \<Rightarrow> store \<Rightarrow> nat \<Rightarrow> nat list" where
  "preorder 0 st n = []"
| "preorder (Suc fuel) st n = n # concat (map (preorder fuel st) (ekids (st ! n)))"

text \<open>\<open>//*\<close>, \<open>//tag\<close> and \<open>.//tag\<close> evaluated at the root element of the document.\<close>

definition all_elements :: "store \<Rightarrow> nat \<Rightarrow> nat list" where
  "all_elements st root = preorder (length st) st root"

definition xpath_tag :: "store \<Rightarrow> nat \<Rightarrow> string \<Rightarrow> nat list" where
  "xpath_tag st root t = filter (\<lambda>n. etag (st ! n) = t) (all_elements st root)"

definition find_paragraphs :: "store \<Rightarrow> nat \<Rightarrow> nat list" where
  "find_paragraphs st root = filter (\<lambda>n. etag (st ! n) = ''p'') (tl (all_elements st root))"

definition proper_descendants :: "store \<Rightarrow> nat \<Rightarrow> nat list" where
  "proper_descendants st n = tl (preorder (length st) st n)"

definition has_child_tag :: "store \<Rightarrow> nat \<Rightarrow> string \<Rightarrow> bool" where
  "has_child_tag st n t = list_ex (\<lambda>k. etag (st ! k) = t) (ekids (st ! n))"

text \<open>The siblings after an element, in order (\<open>following-sibling::*\<close>).\<close>

definition following_siblings :: "store \<Rightarrow> nat \<Rightarrow> nat list" where
  "following_siblings st n =
     (case eparent (st ! n) of
        None \<Rightarrow> []
      | Some p \<Rightarrow> drop (Suc (index_of n (ekids (st ! p)))) (ekids (st ! p)))"

definition preceding_siblings :: "store \<Rightarrow> nat \<Rightarrow> nat list" where
  "preceding_siblings st n =
     (case eparent (st ! n) of
        None \<Rightarrow> []
      | Some p \<Rightarrow> take (index_of n (ekids (st ! p))) (ekids (st ! p)))"

text \<open>Truthiness of an optional string: neither \<open>None\<close> nor empty.\<close>

definition truthy :: "string option \<Rightarrow> bool" where
  "truthy x = (case x of None \<Rightarrow> False | Some s \<Rightarrow> s \<noteq> [])"

section \<open>Files\<close>

text \<open>
  The markup and stylesheet engines are collaborators: a file is modelled by what its
  parser returns for it, and writing the serialization of a tree or of a rule list stores
  a file that parses back to it. A file of the other kind fails to parse. \<open>writes\<close>
  records the \<open>write_text\<close> calls in order.
\<close>

datatype file_content = XhtmlFile store nat | CssFile "css_rule list" | OtherFile

record world =
  files :: "path \<Rightarrow> file_content option"
  writes :: "path list"

definition write_file :: "world \<Rightarrow> path \<Rightarrow> file_content \<Rightarrow> world" where
  "write_file w p f = w\<lparr>files := (files w)(p := Some f), writes := writes w @ [p]\<rparr>"

definition parse_xhtml :: "file_content \<Rightarrow> exc + store \<times> nat" where
  "parse_xhtml f = (case f of XhtmlFile st r \<Rightarrow> Inr (st, r) | _ \<Rightarrow> Inl (ParseFailure ''cannot parse document''))"

definition parse_css :: "file_content \<Rightarrow> exc + css_rule list" where
  "parse_css f = (case f of CssFile rules \<Rightarrow> Inr rules | _ \<Rightarrow> Inl (ParseFailure ''cannot parse stylesheet''))"

text \<open>
  Every rule has the same frame: a loop over the paths, skipping a missing file (only
  \<open>normalize_headings\<close> logs that), and a \<open>try\<close> block that parses the file, runs the
  body of the rule on it with the rule's running counts \<open>c\<close>, and writes and logs as the
  body decides; an exception raised in the block is logged and the loop goes on with the
  counts reached. \<open>file_step\<close> is one turn of the loop. The body returns the counts and either the exception or the file to
  write (if any) and the description to log (if any).
\<close>

definition file_step :: "string option \<Rightarrow> string \<Rightarrow> (file_content \<Rightarrow> exc + 'd)
    \<Rightarrow> ('d \<Rightarrow> 'c \<Rightarrow> 'c \<times> (exc + file_content option \<times> string option))
    \<Rightarrow> path \<Rightarrow> world \<times> Reporter \<times> 'c \<Rightarrow> world \<times> Reporter \<times> 'c" where
  "file_step missing err parse body path s =
     (case s of (w, rep, c) \<Rightarrow>
        (case files w path of
           None \<Rightarrow> (w, (case missing of None \<Rightarrow> rep | Some m \<Rightarrow> log_change rep path m), c)
         | Some f \<Rightarrow>
             (case parse f of
                Inl e \<Rightarrow> (w, log_change rep path (err @ exc_str e), c)
              | Inr d \<Rightarrow>
                  (case body d c of
                     (c', Inl e) \<Rightarrow> (w, log_change rep path (err @ exc_str e), c')
                   | (c', Inr (out, msg)) \<Rightarrow>
                       ((case out of None \<Rightarrow> w | Some f' \<Rightarrow> write_file w path f'),
                        (case msg of None \<Rightarrow> rep | Some m \<Rightarrow> log_change rep path m),
                        c')))))"

fun files_loop :: "string option \<Rightarrow> string \<Rightarrow> (file_content \<Rightarrow> exc + 'd)
    \<Rightarrow> ('d \<Rightarrow> 'c \<Rightarrow> 'c \<times> (exc + file_content option \<times> string option))
    \<Rightarrow> path list \<Rightarrow> world \<times> Reporter \<times> 'c \<Rightarrow> world \<times> Reporter \<times> 'c" where
  "files_loop missing err parse body [] s = s"
| "files_loop missing err parse body (path # paths) s =
     files_loop missing err parse body paths (file_step missing err parse body path s)"

section \<open>Heading normalizer (epub\_repair/rules/headings.py)\<close>

definition determine_heading_level :: "store \<Rightarrow> nat \<Rightarrow> nat" where
  "determine_heading_level st element =
     (let classes = lower (get_attr st element ''class'' [])
      in if py_in ''heading1'' classes \<or> py_in ''h1'' classes \<or> py_in ''title'' classes then 1
         else if py_in ''heading2'' classes \<or> py_in ''h2'' classes \<or> py_in ''chapter'' classes then 2
         else if py_in ''heading3'' classes \<or> py_in ''h3'' classes \<or> py_in ''section'' classes then 3
         else 2)"

text \<open>
  The loop \<open>for child in element: heading.append(child); if child.tail: ...\<close>. The lxml
  iterator fetches the following sibling before it hands out a child, so the loop visits
  the children the element had, in order, although each is moved away. \<open>append\<close> moves
  the child with its tail; the statement under \<open>if child.tail\<close> then reads the last
  child of the heading, which is that child.
\<close>

fun move_children :: "nat list \<Rightarrow> nat \<Rightarrow> store \<Rightarrow> store" where
  "move_children [] heading st = st"
| "move_children (child # rest) heading st =
     (let st1 = append_child st heading child;
          st2 = (if truthy (etail (st1 ! child)) then
                   (if length (ekids (st1 ! heading)) > 0 then
                      (let l = last (ekids (st1 ! heading))
                       in st1[l := (st1 ! l)\<lparr>etail :=
                              Some (or_empty (etail (st1 ! l)) @ or_empty (etail (st1 ! child)))\<rparr>])
                    else st1[heading := (st1 ! heading)\<lparr>etext :=
                              Some (or_empty (etext (st1 ! heading)) @ or_empty (etail (st1 ! child)))\<rparr>])
                 else st1)
      in move_children rest heading st2)"

text \<open>The loop over \<open>element.attrib.items()\<close>.\<close>

definition is_heading_class :: "string \<Rightarrow> string \<Rightarrow> bool" where
  "is_heading_class attr v = (attr = ''class'' \<and> py_in ''heading'' (lower v))"

fun copy_attributes :: "(string \<times> string) list \<Rightarrow> nat \<Rightarrow> store \<Rightarrow> store" where
  "copy_attributes [] heading st = st"
| "copy_attributes ((attr, v) # rest) heading st =
     copy_attributes rest heading
       (if is_heading_class attr v then st else set_attr st heading attr v)"

definition convert_to_heading :: "store \<Rightarrow> nat \<Rightarrow> nat \<Rightarrow> exc + store" where
  "convert_to_heading st element level =
     (case new_element st (''h'' @ str_nat level) of
        (st1, heading) \<Rightarrow>
          (let st2 = (if truthy (etext (st1 ! element))
                      then st1[heading := (st1 ! heading)\<lparr>etext := etext (st1 ! element)\<rparr>]
                      else st1);
               st3 = move_children (ekids (st2 ! element)) heading st2;
               st4 = copy_attributes (eattrib (st3 ! element)) heading st3
           in case getparent st4 element of
                None \<Rightarrow> Inr st4
              | Some parent \<Rightarrow> replace_child st4 parent element heading))"

text \<open>
  The state of the body of a rule on one document: the store, the two running counts of
  the rule and, for the rules that keep one, the \<open>changed\<close> flag of the document.
\<close>

record rstate =
  rstore :: store
  count1 :: nat
  count2 :: nat
  changed :: bool

text \<open>\<open>//p[contains(@class, keyword)]\<close>.\<close>

definition xpath_p_class_contains :: "store \<Rightarrow> nat \<Rightarrow> string \<Rightarrow> nat list" where
  "xpath_p_class_contains st root keyword =
     filter (\<lambda>n. py_in keyword (get_attr st n ''class'' [])) (xpath_tag st root ''p'')"

text \<open>\<open>for p_elem in fake_headings\<close>; \<open>count1\<close> is \<open>converted_count\<close>.\<close>

fun convert_loop :: "nat list \<Rightarrow> rstate \<Rightarrow> rstate \<times> exc option" where
  "convert_loop [] s = (s, None)"
| "convert_loop (p_elem # rest) s =
     (let level = determine_heading_level (rstore s) p_elem
      in if level = 0 then convert_loop rest s
         else (case convert_to_heading (rstore s) p_elem level of
                 Inl e \<Rightarrow> (s, Some e)
               | Inr st' \<Rightarrow> convert_loop rest (s\<lparr>rstore := st', count1 := count1 s + 1\<rparr>)))"

text \<open>\<open>for pattern in fake_heading_patterns\<close>: each query is evaluated when its turn comes.\<close>

fun pattern_loop :: "string list \<Rightarrow> nat \<Rightarrow> rstate \<Rightarrow> rstate \<times> exc option" where
  "pattern_loop [] root s = (s, None)"
| "pattern_loop (keyword # rest) root s =
     (case convert_loop (xpath_p_class_contains (rstore s) root keyword) s of
        (s', Some e) \<Rightarrow> (s', Some e)
      | (s', None) \<Rightarrow> pattern_loop rest root s')"

text \<open>\<open>//p//h1 | ... | //p//h6\<close>: the h1..h6 elements below some p, in document order.\<close>

definition heading_tags :: "string list" where
  "heading_tags = [''h1'', ''h2'', ''h3'', ''h4'', ''h5'', ''h6'']"

definition xpath_nested_headings :: "store \<Rightarrow> nat \<Rightarrow> nat list" where
  "xpath_nested_headings st root =
     (let below_p = concat (map (proper_descendants st) (xpath_tag st root ''p''))
      in filter (\<lambda>n. etag (st ! n) \<in> set heading_tags \<and> n \<in> set below_p)
           (all_elements st root))"

text \<open>\<open>for heading in nested_headings\<close>; \<open>count2\<close> is \<open>nesting_fixes\<close>.\<close>

fun nesting_loop :: "nat list \<Rightarrow> rstate \<Rightarrow> rstate \<times> exc option" where
  "nesting_loop [] s = (s, None)"
| "nesting_loop (heading # rest) s =
     (case getparent (rstore s) heading of
        None \<Rightarrow> nesting_loop rest s
      | Some parent \<Rightarrow>
          if etag (rstore s ! parent) = ''p'' then
            (case addprevious (rstore s) parent heading of
               Inl e \<Rightarrow> (s, Some e)
             | Inr st1 \<Rightarrow>
                 if truthy (etext (st1 ! parent)) \<or> length (ekids (st1 ! parent)) > 0
                 then nesting_loop rest (s\<lparr>rstore := st1, count2 := count2 s + 1\<rparr>)
                 else (case getparent st1 parent of
                         None \<Rightarrow> (s\<lparr>rstore := st1\<rparr>,
                                   Some (AttributeError ''NoneType object has no attribute remove''))
                       | Some grandparent \<Rightarrow>
                           (case remove_child st1 grandparent parent of
                              Inl e \<Rightarrow> (s\<lparr>rstore := st1\<rparr>, Some e)
                            | Inr st2 \<Rightarrow> nesting_loop rest (s\<lparr>rstore := st2, count2 := count2 s + 1\<rparr>))))
          else nesting_loop rest s)"

text \<open>
  The \<open>try\<close> block of \<open>normalize_headings\<close> for one document. The counts are those of
  the rule, carried from document to document; the test before writing reads them.
\<close>

definition headings_body :: "store \<times> nat \<Rightarrow> nat \<times> nat
    \<Rightarrow> (nat \<times> nat) \<times> (exc + file_content option \<times> string option)" where
  "headings_body doc c =
     (case doc of (st, root) \<Rightarrow>
        (case pattern_loop [''heading'', ''chapter'', ''section'', ''title''] root
                \<lparr>rstore = st, count1 = fst c, count2 = snd c, changed = False\<rparr> of
           (s1, Some e) \<Rightarrow> ((count1 s1, count2 s1), Inl e)
         | (s1, None) \<Rightarrow>
             (case nesting_loop (xpath_nested_headings (rstore s1) root) s1 of
                (s2, Some e) \<Rightarrow> ((count1 s2, count2 s2), Inl e)
              | (s2, None) \<Rightarrow>
                  ((count1 s2, count2 s2),
                   Inr (if count1 s2 > 0 \<or> count2 s2 > 0
                        then (Some (XhtmlFile (rstore s2) root),
                              Some (''Converted '' @ str_nat (count1 s2) @ '' fake headings, fixed ''
                                    @ str_nat (count2 s2) @ '' nesting issues''))
                        else (None, None))))))"

type_synonym rule_state = "world \<times> Reporter"

definition normalize_headings :: "EpubBook \<Rightarrow> rule_state \<Rightarrow> rule_state" where
  "normalize_headings book s =
     (case files_loop (Some ''File not found, skipping'') ''Error processing: '' parse_xhtml headings_body
             (get_xhtml_files book) (fst s, snd s, (0, 0)) of
        (w, rep, (converted_count, nesting_fixes)) \<Rightarrow>
          (w, increment (increment rep ''headings.converted_fake_headings'' converted_count)
                ''headings.fixed_nesting'' nesting_fixes))"

section \<open>Paragraph normalizer (epub\_repair/rules/paragraphs.py)\<close>

text \<open>
  \<open>text()\<close> selects the text nodes among the children of an element: its leading text
  and the tails of its child elements.
\<close>

definition has_text_node :: "store \<Rightarrow> nat \<Rightarrow> bool" where
  "has_text_node st n =
     (etext (st ! n) \<noteq> None \<or> list_ex (\<lambda>k. etail (st ! k) \<noteq> None) (ekids (st ! n)))"

text \<open>\<open>//div[not(div) and not(p) and (text() or span or em or strong)]\<close>.\<close>

definition xpath_inline_divs :: "store \<Rightarrow> nat \<Rightarrow> nat list" where
  "xpath_inline_divs st root =
     filter (\<lambda>n. (has_text_node st n \<or> has_child_tag st n ''span'' \<or> has_child_tag st n ''em''
                    \<or> has_child_tag st n ''strong'')
                 \<and> \<not> has_child_tag st n ''div'' \<and> \<not> has_child_tag st n ''p'')
       (xpath_tag st root ''div'')"

text \<open>\<open>for div in divs\<close>; \<open>count1\<close> is \<open>divs_converted\<close>.\<close>

fun div_loop :: "nat list \<Rightarrow> rstate \<Rightarrow> rstate" where
  "div_loop [] s = s"
| "div_loop (d # rest) s =
     div_loop rest (s\<lparr>rstore := (rstore s)[d := (rstore s ! d)\<lparr>etag := ''p''\<rparr>],
                      count1 := count1 s + 1, changed := True\<rparr>)"

definition is_br :: "store \<Rightarrow> nat \<Rightarrow> bool" where
  "is_br st n = (etag (st ! n) = ''br'')"

text \<open>\<open>//br/following-sibling::br\<close>: the br elements with a br among the siblings before.\<close>

definition xpath_br_after_br :: "store \<Rightarrow> nat \<Rightarrow> nat list" where
  "xpath_br_after_br st root =
     filter (\<lambda>n. list_ex (is_br st) (preceding_siblings st n)) (xpath_tag st root ''br'')"

text \<open>\<open>//p/br[last()]\<close>: for each p, the last of its br children.\<close>

definition xpath_trailing_br :: "store \<Rightarrow> nat \<Rightarrow> nat list" where
  "xpath_trailing_br st root =
     filter (\<lambda>n. (case eparent (st ! n) of None \<Rightarrow> False | Some p \<Rightarrow> etag (st ! p) = ''p'')
                 \<and> \<not> list_ex (is_br st) (following_siblings st n))
       (xpath_tag st root ''br'')"

text \<open>
  The removal loop shared by the rules:
  \<open>parent = x.getparent(); if parent is not None: parent.remove(x); count += 1; changed = True\<close>,
  with \<open>count2\<close> as the count (\<open>br_removed\<close> here, \<open>page_breaks_removed\<close> in the break
  classifier).
\<close>

fun remove_loop :: "nat list \<Rightarrow> rstate \<Rightarrow> rstate \<times> exc option" where
  "remove_loop [] s = (s, None)"
| "remove_loop (x # rest) s =
     (case getparent (rstore s) x of
        None \<Rightarrow> remove_loop rest s
      | Some parent \<Rightarrow>
          (case remove_child (rstore s) parent x of
             Inl e \<Rightarrow> (s, Some e)
           | Inr st' \<Rightarrow> remove_loop rest (s\<lparr>rstore := st', count2 := count2 s + 1, changed := True\<rparr>)))"

definition paragraphs_body :: "store \<times> nat \<Rightarrow> nat \<times> nat
    \<Rightarrow> (nat \<times> nat) \<times> (exc + file_content option \<times> string option)" where
  "paragraphs_body doc c =
     (case doc of (st, root) \<Rightarrow>
        (let s1 = div_loop (xpath_inline_divs st root)
                    \<lparr>rstore = st, count1 = fst c, count2 = snd c, changed = False\<rparr>
         in case remove_loop (xpath_br_after_br (rstore s1) root) s1 of
              (s2, Some e) \<Rightarrow> ((count1 s2, count2 s2), Inl e)
            | (s2, None) \<Rightarrow>
                (case remove_loop (xpath_trailing_br (rstore s2) root) s2 of
                   (s3, Some e) \<Rightarrow> ((count1 s3, count2 s3), Inl e)
                 | (s3, None) \<Rightarrow>
                     ((count1 s3, count2 s3),
                      Inr (if changed s3
                           then (Some (XhtmlFile (rstore s3) root),
                                 Some (''Converted '' @ str_nat (count1 s3) @ '' divs, removed ''
                                       @ str_nat (count2 s3) @ '' <br/> tags''))
                           else (None, None))))))"

definition normalize_paragraphs_and_indents :: "EpubBook \<Rightarrow> rule_state \<Rightarrow> rule_state" where
  "normalize_paragraphs_and_indents book s =
     (case files_loop None ''Error processing: '' parse_xhtml paragraphs_body
             (get_xhtml_files book) (fst s, snd s, (0, 0)) of
        (w, rep, (divs_converted, br_removed)) \<Rightarrow>
          (w, increment (increment rep ''paragraphs.converted_divs'' divs_converted)
                ''paragraphs.removed_br_breaks'' br_removed))"

section \<open>List normalizer (epub\_repair/rules/lists.py)\<close>

text \<open>
  The two patterns \<open>^[-\<bullet>*]\s+\<close> and \<open>^\d+\.\s+\<close>. Each function returns what follows a
  match at the start of the text, \<open>None\<close> when the pattern does not match; \<open>re.sub\<close>
  with the empty replacement keeps exactly that. The bullet U+2022 is its three UTF-8
  bytes; \<open>after_spaces\<close> is \<open>\s+\<close> and what follows it. \<open>\d\<close> is modelled on the
  digits 0..9.
\<close>

definition bullet :: string where
  "bullet = [char_of (226 :: nat), char_of (128 :: nat), char_of (162 :: nat)]"

definition after_spaces :: "string \<Rightarrow> string option" where
  "after_spaces r = (let r' = lstrip r in if length r' < length r then Some r' else None)"

definition unordered_match :: "string \<Rightarrow> string option" where
  "unordered_match t =
     (if prefix ''-'' t \<or> prefix ''*'' t then after_spaces (drop 1 t)
      else if prefix bullet t then after_spaces (drop 3 t)
      else None)"

definition ordered_match :: "string \<Rightarrow> string option" where
  "ordered_match t =
     (if takeWhile is_digit t = [] then None
      else (case dropWhile is_digit t of
              [] \<Rightarrow> None
            | c # r \<Rightarrow> if c = CHR ''.'' then after_spaces r else None))"

definition re_sub :: "(string \<Rightarrow> string option) \<Rightarrow> string \<Rightarrow> string" where
  "re_sub pattern t = (case pattern t of None \<Rightarrow> t | Some r \<Rightarrow> r)"

text \<open>The inner \<open>while j < len(paragraphs)\<close>: the items collected and the paragraphs left.\<close>

fun collect_items :: "store \<Rightarrow> bool \<Rightarrow> bool \<Rightarrow> nat list \<Rightarrow> (nat \<times> bool) list \<times> nat list" where
  "collect_items st is_unordered is_ordered [] = ([], [])"
| "collect_items st is_unordered is_ordered (p_item # rest) =
     (let text_item = strip (or_empty (etext (st ! p_item)))
      in if is_unordered \<and> unordered_match text_item \<noteq> None then
           (case collect_items st is_unordered is_ordered rest of
              (items, left) \<Rightarrow> ((p_item, False) # items, left))
         else if is_ordered \<and> ordered_match text_item \<noteq> None then
           (case collect_items st is_unordered is_ordered rest of
              (items, left) \<Rightarrow> ((p_item, True) # items, left))
         else ([], p_item # rest))"

lemma collect_items_length:
  "collect_items st a b ps = (items, left) \<Longrightarrow> length items + length left = length ps"
  by (induction ps arbitrary: items left) (auto simp: Let_def split: if_splits prod.splits)

lemma collect_items_length_sym:
  "(items, left) = collect_items st a b ps \<Longrightarrow> length items + length left = length ps"
  using collect_items_length [of st a b ps items left] by simp

text \<open>\<open>for child in p_elem: li.append(child)\<close>.\<close>

fun append_children :: "nat list \<Rightarrow> nat \<Rightarrow> store \<Rightarrow> store" where
  "append_children [] li st = st"
| "append_children (child # rest) li st = append_children rest li (append_child st li child)"

text \<open>\<open>for p_elem, was_ordered in list_items\<close>.\<close>

fun items_loop :: "(nat \<times> bool) list \<Rightarrow> nat \<Rightarrow> store \<Rightarrow> exc + store" where
  "items_loop [] list_elem st = Inr st"
| "items_loop ((p_elem, was_ordered) # rest) list_elem st =
     (case new_element st ''li'' of
        (st1, li) \<Rightarrow>
          (let text_content = strip (or_empty (etext (st1 ! p_elem)));
               text_content = (if was_ordered then re_sub ordered_match text_content
                               else re_sub unordered_match text_content);
               st2 = st1[li := (st1 ! li)\<lparr>etext := Some text_content\<rparr>];
               st3 = append_children (ekids (st2 ! p_elem)) li st2;
               st4 = append_child st3 list_elem li
           in case getparent st4 p_elem of
                None \<Rightarrow> items_loop rest list_elem st4
              | Some parent \<Rightarrow>
                  (case remove_child st4 parent p_elem of
                     Inl e \<Rightarrow> Inl e
                   | Inr st5 \<Rightarrow> items_loop rest list_elem st5)))"

text \<open>
  The statements under \<open>if list_items\<close>: build the list, then insert it at the parent that
  \<open>first_p.getparent()\<close> returns at that point.
\<close>

definition make_list :: "(nat \<times> bool) list \<Rightarrow> bool \<Rightarrow> store \<Rightarrow> exc + store" where
  "make_list list_items is_ordered st =
     (case new_element st (if is_ordered then ''ol'' else ''ul'') of
        (st1, list_elem) \<Rightarrow>
          (case items_loop list_items list_elem st1 of
             Inl e \<Rightarrow> Inl e
           | Inr st2 \<Rightarrow>
               (let first_p = fst (hd list_items)
                in case getparent st2 first_p of
                     None \<Rightarrow> Inr st2
                   | Some parent \<Rightarrow>
                       Inr (insert_child st2 parent
                              (if first_p \<in> set (ekids (st2 ! parent))
                               then index_of first_p (ekids (st2 ! parent))
                               else length (ekids (st2 ! parent)))
                              list_elem))))"

text \<open>The outer \<open>while i < len(paragraphs)\<close>; \<open>count1\<close> is \<open>lists_created\<close>.\<close>

function lists_loop :: "nat list \<Rightarrow> rstate \<Rightarrow> rstate \<times> exc option" where
  "lists_loop [] s = (s, None)"
| "lists_loop (p # ps) s =
     (let text = strip (or_empty (etext (rstore s ! p)));
          is_unordered = (unordered_match text \<noteq> None);
          is_ordered = (ordered_match text \<noteq> None)
      in if is_unordered \<or> is_ordered then
           (case collect_items (rstore s) is_unordered is_ordered (p # ps) of
              (list_items, left) \<Rightarrow>
                if list_items = [] then lists_loop ps s
                else (case make_list list_items is_ordered (rstore s) of
                        Inl e \<Rightarrow> (s, Some e)
                      | Inr st' \<Rightarrow> lists_loop left (s\<lparr>rstore := st', count1 := count1 s + 1\<rparr>)))
         else lists_loop ps s)"
  by pat_completeness auto
termination
  by (relation "measure (\<lambda>(ps, s). length ps)")
     (auto dest!: collect_items_length_sym simp del: collect_items.simps simp: neq_Nil_conv)

definition lists_body :: "store \<times> nat \<Rightarrow> nat \<Rightarrow> nat \<times> (exc + file_content option \<times> string option)" where
  "lists_body doc c =
     (case doc of (st, root) \<Rightarrow>
        (case lists_loop (find_paragraphs st root) \<lparr>rstore = st, count1 = c, count2 = 0, changed = False\<rparr> of
           (s1, Some e) \<Rightarrow> (count1 s1, Inl e)
         | (s1, None) \<Rightarrow>
             (count1 s1,
              Inr (if count1 s1 > 0
                   then (Some (XhtmlFile (rstore s1) root),
                         Some (''Created '' @ str_nat (count1 s1) @ '' semantic lists''))
                   else (None, None)))))"

definition normalize_lists :: "EpubBook \<Rightarrow> rule_state \<Rightarrow> rule_state" where
  "normalize_lists book s =
     (case files_loop None ''Error processing: '' parse_xhtml lists_body
             (get_xhtml_files book) (fst s, snd s, 0) of
        (w, rep, lists_created) \<Rightarrow> (w, increment rep ''lists.converted_paragraphs'' lists_created))"

section \<open>Break classifier (epub\_repair/rules/breaks.py)\<close>

definition is_empty_paragraph :: "store \<Rightarrow> nat \<Rightarrow> bool" where
  "is_empty_paragraph st p = (strip (or_empty (etext (st ! p))) = [] \<and> length (ekids (st ! p)) = 0)"

text \<open>The \<open>if / elif / elif\<close> that sets \<open>is_page_break\<close>.\<close>

definition is_page_break :: "store \<Rightarrow> nat \<Rightarrow> bool" where
  "is_page_break st p =
     (if is_empty_paragraph st p then True
      else if lower (get_attr st p ''class'' []) \<in> set [''page-break'', ''pagebreak'', ''break''] then True
      else if py_in ''page-break'' (lower (get_attr st p ''style'' []))
              \<or> py_in ''pagebreak'' (lower (get_attr st p ''style'' [])) then True
      else False)"

definition is_h1_h2 :: "store \<Rightarrow> nat \<Rightarrow> bool" where
  "is_h1_h2 st n = (etag (st ! n) \<in> set [''h1'', ''h2''])"

definition has_chapter_keyword :: "store \<Rightarrow> nat \<Rightarrow> bool" where
  "has_chapter_keyword st h =
     (let heading_text = lower (strip (or_empty (etext (st ! h))))
      in list_ex (\<lambda>keyword. py_in keyword heading_text) [''chapter'', ''part'', ''book''])"

text \<open>
  The value of \<open>is_before_chapter\<close> at the end of the loop body, for the paragraph \<open>p\<close>
  at position \<open>i\<close> of the list \<open>paragraphs\<close>.
\<close>

definition is_before_chapter :: "store \<Rightarrow> nat \<Rightarrow> nat \<Rightarrow> bool" where
  "is_before_chapter st i p =
     (let next_sibling = getnext st p;
          first_test = (case next_sibling of
                      None \<Rightarrow> False
                    | Some nx \<Rightarrow>
                        if is_h1_h2 st nx then
                          (if has_chapter_keyword st nx then True
                           else if i < 3 then True
                           else False)
                        else False)
      in if first_test then True
         else (case getparent st p of
                 None \<Rightarrow> False
               | Some parent \<Rightarrow>
                   (let body_children = ekids (st ! parent)
                    in if p \<in> set body_children then
                         (let p_index = index_of p body_children
                          in if p_index < 3 \<and> (case next_sibling of None \<Rightarrow> False | Some nx \<Rightarrow> is_h1_h2 st nx)
                             then True else False)
                       else False)))"

text \<open>\<open>for i, p in enumerate(paragraphs)\<close>: the list \<open>paragraphs_to_remove\<close>.\<close>

fun paragraphs_to_remove :: "store \<Rightarrow> nat \<Rightarrow> nat list \<Rightarrow> nat list" where
  "paragraphs_to_remove st i [] = []"
| "paragraphs_to_remove st i (p # ps) =
     (if is_page_break st p then
        (if is_before_chapter st i p then paragraphs_to_remove st (Suc i) ps
         else p # paragraphs_to_remove st (Suc i) ps)
      else paragraphs_to_remove st (Suc i) ps)"

text \<open>\<open>for j in range(empty_count): parent.remove(paragraphs[start_idx + j])\<close>.\<close>

fun remove_run :: "nat list \<Rightarrow> nat \<Rightarrow> store \<Rightarrow> exc + store" where
  "remove_run [] parent st = Inr st"
| "remove_run (q # qs) parent st =
     (case remove_child st parent q of
        Inl e \<Rightarrow> Inl e
      | Inr st' \<Rightarrow> remove_run qs parent st')"

text \<open>
  The scan for runs of empty paragraphs; \<open>count1\<close> is \<open>scene_breaks_created\<close>. The run
  that starts at \<open>i\<close> is the longest stretch of empty paragraphs of the list from there.
\<close>

function scene_loop :: "nat list \<Rightarrow> nat \<Rightarrow> rstate \<Rightarrow> rstate \<times> exc option" where
  "scene_loop paragraphs i s =
     (if i < length paragraphs then
        (let start_idx = i;
             run = takeWhile (is_empty_paragraph (rstore s)) (drop i paragraphs);
             empty_count = length run;
             i1 = i + empty_count;
             i2 = (if i1 < length paragraphs then i1 + 1 else i1)
         in if empty_count \<ge> 2 then
              (case new_element (rstore s) ''hr'' of
                 (st1, hr) \<Rightarrow>
                   (let st2 = set_attr st1 hr ''class'' ''scene-break''
                    in case getparent st2 (paragraphs ! start_idx) of
                         None \<Rightarrow> scene_loop paragraphs i2 (s\<lparr>rstore := st2\<rparr>)
                       | Some parent \<Rightarrow>
                           (case remove_run run parent st2 of
                              Inl e \<Rightarrow> (s\<lparr>rstore := st2\<rparr>, Some e)
                            | Inr st3 \<Rightarrow>
                                scene_loop paragraphs i2
                                  (s\<lparr>rstore := insert_child st3 parent start_idx hr,
                                     count1 := count1 s + 1, changed := True\<rparr>))))
            else scene_loop paragraphs i2 s)
      else (s, None))"
  by pat_completeness auto
termination
  by (relation "measure (\<lambda>(paragraphs, i, s). length paragraphs - i)") auto

declare scene_loop.simps [simp del]

text \<open>\<open>//br[count(following-sibling::br) >= 2]\<close>.\<close>

definition xpath_br_sequences :: "store \<Rightarrow> nat \<Rightarrow> nat list" where
  "xpath_br_sequences st root =
     filter (\<lambda>n. length (filter (is_br st) (following_siblings st n)) \<ge> 2) (xpath_tag st root ''br'')"

text \<open>
  \<open>for _ in range(k): next_br = anchor.getnext(); if next_br is not None and next_br.tag == "br": parent.remove(next_br)\<close>.
\<close>

fun remove_next_brs :: "nat \<Rightarrow> nat \<Rightarrow> nat \<Rightarrow> store \<Rightarrow> exc + store" where
  "remove_next_brs 0 anchor parent st = Inr st"
| "remove_next_brs (Suc k) anchor parent st =
     (case getnext st anchor of
        None \<Rightarrow> remove_next_brs k anchor parent st
      | Some next_br \<Rightarrow>
          if is_br st next_br then
            (case remove_child st parent next_br of
               Inl e \<Rightarrow> Inl e
             | Inr st' \<Rightarrow> remove_next_brs k anchor parent st')
          else remove_next_brs k anchor parent st)"

definition before_keyword_heading :: "store \<Rightarrow> nat \<Rightarrow> bool" where
  "before_keyword_heading st n =
     (case getnext st n of
        None \<Rightarrow> False
      | Some nx \<Rightarrow> if is_h1_h2 st nx then has_chapter_keyword st nx else False)"

text \<open>\<open>for br in br_sequences\<close>; \<open>count2\<close> is \<open>page_breaks_removed\<close>.\<close>

fun br_loop :: "nat list \<Rightarrow> rstate \<Rightarrow> rstate \<times> exc option" where
  "br_loop [] s = (s, None)"
| "br_loop (br # rest) s =
     (case getparent (rstore s) br of
        None \<Rightarrow> br_loop rest s
      | Some parent \<Rightarrow>
          (let st = rstore s;
               br_count = 1 + length (takeWhile (is_br st) (following_siblings st br));
               before_chapter = before_keyword_heading st br
           in if br_count \<ge> 3 \<and> \<not> before_chapter then
                (case new_element st ''hr'' of
                   (st1, hr) \<Rightarrow>
                     (let st2 = set_attr st1 hr ''class'' ''scene-break''
                      in case replace_child st2 parent br hr of
                           Inl e \<Rightarrow> (s, Some e)
                         | Inr st3 \<Rightarrow>
                             (case remove_next_brs (br_count - 1) hr parent st3 of
                                Inl e \<Rightarrow> (s, Some e)
                              | Inr st4 \<Rightarrow>
                                  br_loop rest (s\<lparr>rstore := st4, count1 := count1 s + 1, changed := True\<rparr>))))
              else if br_count \<ge> 3 \<and> before_chapter then
                (case remove_next_brs (br_count - 1) br parent st of
                   Inl e \<Rightarrow> (s, Some e)
                 | Inr st1 \<Rightarrow>
                     br_loop rest (s\<lparr>rstore := st1, count2 := count2 s + (br_count - 1), changed := True\<rparr>))
              else br_loop rest s))"

text \<open>\<open>s.replace(old, "")\<close>: the occurrences of \<open>old\<close> are deleted from left to right.\<close>

function delete_all :: "string \<Rightarrow> string \<Rightarrow> string" where
  "delete_all old [] = []"
| "delete_all old (c # cs) =
     (if old \<noteq> [] \<and> prefix old (c # cs) then delete_all old (drop (length old) (c # cs))
      else c # delete_all old cs)"
  by pat_completeness auto
termination
  by (relation "measure (\<lambda>(old, s). length s)") auto

definition strip_page_break_styles :: "string \<Rightarrow> string" where
  "strip_page_break_styles style =
     foldl (\<lambda>acc old. delete_all old acc) style
       [''page-break-before: always;'', ''page-break-after: always;'',
        ''page-break-before:always;'', ''page-break-after:always;'',
        ''pagebreak: always;'', ''pagebreak:always;'']"

text \<open>\<open>//*[contains(@style, 'page-break') or contains(@style, 'pagebreak')]\<close>.\<close>

definition xpath_page_break_styles :: "store \<Rightarrow> nat \<Rightarrow> nat list" where
  "xpath_page_break_styles st root =
     filter (\<lambda>n. py_in ''page-break'' (get_attr st n ''style'' [])
                 \<or> py_in ''pagebreak'' (get_attr st n ''style'' []))
       (all_elements st root)"

text \<open>The body of \<open>for elem in elements_with_page_break\<close>, and the loop.\<close>

definition style_step :: "nat \<Rightarrow> rstate \<Rightarrow> rstate" where
  "style_step elem s =
     (if before_keyword_heading (rstore s) elem then s
      else (let style = get_attr (rstore s) elem ''style'' [];
                new_style = strip_page_break_styles style
            in if new_style = style then s
               else s\<lparr>rstore := (if strip new_style = [] then pop_attr (rstore s) elem ''style''
                                    else set_attr (rstore s) elem ''style'' new_style),
                        count2 := count2 s + 1, changed := True\<rparr>))"

fun style_loop :: "nat list \<Rightarrow> rstate \<Rightarrow> rstate" where
  "style_loop [] s = s"
| "style_loop (elem # rest) s = style_loop rest (style_step elem s)"

text \<open>The first pass alone: the decisions on the tree as parsed, then the removals.\<close>

definition page_break_pass :: "nat \<Rightarrow> rstate \<Rightarrow> rstate \<times> exc option" where
  "page_break_pass root s =
     remove_loop (paragraphs_to_remove (rstore s) 0 (xpath_tag (rstore s) root ''p'')) s"

definition break_messages :: "nat \<Rightarrow> nat \<Rightarrow> string option" where
  "break_messages scene_breaks_created page_breaks_removed =
     (let changes = (if scene_breaks_created > 0
                     then [''Created '' @ str_nat scene_breaks_created @ '' scene breaks''] else [])
                  @ (if page_breaks_removed > 0
                     then [''Removed '' @ str_nat page_breaks_removed @ '' page breaks''] else [])
      in case changes of
           [] \<Rightarrow> None
         | [a] \<Rightarrow> Some a
         | a # b # _ \<Rightarrow> Some (a @ ''; '' @ b))"

definition breaks_body :: "store \<times> nat \<Rightarrow> nat \<times> nat
    \<Rightarrow> (nat \<times> nat) \<times> (exc + file_content option \<times> string option)" where
  "breaks_body doc c =
     (case doc of (st, root) \<Rightarrow>
        (case page_break_pass root \<lparr>rstore = st, count1 = fst c, count2 = snd c, changed = False\<rparr> of
           (s1, Some e) \<Rightarrow> ((count1 s1, count2 s1), Inl e)
         | (s1, None) \<Rightarrow>
             (case scene_loop (xpath_tag (rstore s1) root ''p'') 0 s1 of
                (s2, Some e) \<Rightarrow> ((count1 s2, count2 s2), Inl e)
              | (s2, None) \<Rightarrow>
                  (case br_loop (xpath_br_sequences (rstore s2) root) s2 of
                     (s3, Some e) \<Rightarrow> ((count1 s3, count2 s3), Inl e)
                   | (s3, None) \<Rightarrow>
                       (let s4 = style_loop (xpath_page_break_styles (rstore s3) root) s3
                        in ((count1 s4, count2 s4),
                            Inr (if changed s4
                                 then (Some (XhtmlFile (rstore s4) root),
                                       break_messages (count1 s4) (count2 s4))
                                 else (None, None))))))))"

definition normalize_context_breaks :: "EpubBook \<Rightarrow> rule_state \<Rightarrow> rule_state" where
  "normalize_context_breaks book s =
     (case files_loop None ''Error processing: '' parse_xhtml breaks_body
             (get_xhtml_files book) (fst s, snd s, (0, 0)) of
        (w, rep, (scene_breaks_created, page_breaks_removed)) \<Rightarrow>
          (w, increment (increment rep ''breaks.normalized_scene_breaks'' scene_breaks_created)
                ''breaks.removed_page_breaks'' page_breaks_removed))"

section \<open>Image normalizer (epub\_repair/rules/images.py)\<close>

text \<open>\<open>for img in images\<close>; \<open>count1\<close> is \<open>alt_added\<close>.\<close>

fun img_loop :: "nat list \<Rightarrow> rstate \<Rightarrow> rstate" where
  "img_loop [] s = s"
| "img_loop (img # rest) s =
     (if map_of (eattrib (rstore s ! img)) ''alt'' = None
      then img_loop rest (s\<lparr>rstore := set_attr (rstore s) img ''alt'' [],
                            count1 := count1 s + 1, changed := True\<rparr>)
      else img_loop rest s)"

definition images_body :: "store \<times> nat \<Rightarrow> nat \<Rightarrow> nat \<times> (exc + file_content option \<times> string option)" where
  "images_body doc c =
     (case doc of (st, root) \<Rightarrow>
        (let s1 = img_loop (xpath_tag st root ''img'') \<lparr>rstore = st, count1 = c, count2 = 0, changed = False\<rparr>
         in (count1 s1,
             Inr (if changed s1
                  then (Some (XhtmlFile (rstore s1) root),
                        Some (''Added '' @ str_nat (count1 s1) @ '' alt attributes''))
                  else (None, None)))))"

definition normalize_images :: "EpubBook \<Rightarrow> rule_state \<Rightarrow> rule_state" where
  "normalize_images book s =
     (case files_loop None ''Error processing: '' parse_xhtml images_body
             (get_xhtml_files book) (fst s, snd s, 0) of
        (w, rep, alt_added) \<Rightarrow> (w, increment rep ''images.added_alt'' alt_added))"

section \<open>The stylesheet rules on a book\<close>

text \<open>
  \<open>EpubBook.resolve_path\<close> and \<open>get_css_files\<close>. Paths are taken as normalized, so that
  \<open>resolve()\<close> changes nothing; the manifest is iterated in the order of its entries.
\<close>

definition path_parent :: "path \<Rightarrow> path" where
  "path_parent p = rev (drop 1 (dropWhile (\<lambda>c. c \<noteq> CHR ''/'') (rev p)))"

definition path_join :: "path \<Rightarrow> path \<Rightarrow> path" where
  "path_join d h = (if d = [] then h else d @ ''/'' @ h)"

definition resolve_path :: "EpubBook \<Rightarrow> world \<Rightarrow> path \<Rightarrow> path" where
  "resolve_path book w h =
     (let resolved = path_join (path_parent (opf_path book)) h
      in if files w resolved = None then path_join (root_path book) h else resolved)"

definition get_css_files :: "EpubBook \<Rightarrow> world \<Rightarrow> path list" where
  "get_css_files book w =
     map (\<lambda>(k, item). resolve_path book w (mhref item))
       (filter (\<lambda>(k, item). media_type item = ''text/css'') (manifest_items book))"

definition safe_css_file :: "css_rule list \<Rightarrow> nat \<Rightarrow> nat \<times> (exc + file_content option \<times> string option)" where
  "safe_css_file rules c =
     (case safe_css_body rules c of
        (n, Inl e) \<Rightarrow> (n, Inl e)
      | (n, Inr (rules', ch)) \<Rightarrow>
          (n, Inr (if ch then (Some (CssFile rules'),
                               Some (''Removed '' @ str_nat n @ '' aggressive CSS properties''))
                   else (None, None))))"

definition simplify_css_safe :: "EpubBook \<Rightarrow> rule_state \<Rightarrow> rule_state" where
  "simplify_css_safe book s =
     (case files_loop None ''Error processing CSS: '' parse_css safe_css_file
             (get_css_files book (fst s)) (fst s, snd s, 0) of
        (w, rep, properties_removed) \<Rightarrow>
          (w, increment (increment rep ''css.removed_properties'' properties_removed)
                ''css.modified_properties'' 0))"

definition aggressive_css_file :: "css_rule list \<Rightarrow> nat \<Rightarrow> nat \<times> (exc + file_content option \<times> string option)" where
  "aggressive_css_file rules c =
     (case aggressive_css_body rules c of
        (n, Inl e) \<Rightarrow> (n, Inl e)
      | (n, Inr (rules', ch)) \<Rightarrow>
          (n, Inr (if ch then (Some (CssFile rules'),
                               Some (''Removed '' @ str_nat n @ '' font-family declarations''))
                   else (None, None))))"

definition simplify_css_aggressive :: "EpubBook \<Rightarrow> rule_state \<Rightarrow> rule_state" where
  "simplify_css_aggressive book s =
     (case files_loop None ''Error processing CSS: '' parse_css aggressive_css_file
             (get_css_files book (fst s)) (fst s, snd s, 0) of
        (w, rep, font_families_removed) \<Rightarrow>
          (w, increment (increment rep ''css.removed_font_families'' font_families_removed)
                ''css.removed_font_faces'' 0))"

section \<open>Rule sets and the pipeline (epub\_repair/rules/\_\_init\_\_.py, epub\_repair/cli.py)\<close>

definition SAFE_RULES :: "(EpubBook \<Rightarrow> rule_state \<Rightarrow> rule_state) list" where
  "SAFE_RULES = [normalize_headings, normalize_paragraphs_and_indents, normalize_lists,
                 normalize_context_breaks, normalize_images, simplify_css_safe]"

definition AGGRESSIVE_RULES :: "(EpubBook \<Rightarrow> rule_state \<Rightarrow> rule_state) list" where
  "AGGRESSIVE_RULES = SAFE_RULES @ [simplify_css_aggressive]"

text \<open>
  \<open>for rule in rules: rule(book, reporter)\<close>. Each rule catches what its work on a file
  raises, and nothing else in a rule raises in this model, so the \<open>except\<close> branch of the
  driver has no counterpart.
\<close>

fun apply_rules :: "(EpubBook \<Rightarrow> rule_state \<Rightarrow> rule_state) list \<Rightarrow> EpubBook \<Rightarrow> rule_state \<Rightarrow> rule_state" where
  "apply_rules [] book s = s"
| "apply_rules (rule # rules) book s = apply_rules rules book (rule book s)"

text \<open>
  \<open>run_repair\<close> from the parsed book and the extracted files to the files that are
  repackaged and the reporter the summary is read from.
\<close>

definition run_repair :: "string \<Rightarrow> EpubBook \<Rightarrow> world \<Rightarrow> world \<times> Reporter" where
  "run_repair mode book w =
     apply_rules (if mode = ''aggressive'' then AGGRESSIVE_RULES else SAFE_RULES) book (w, new_reporter)"

section \<open>Example documents and books\<close>

definition el :: "string \<Rightarrow> (string \<times> string) list \<Rightarrow> string option \<Rightarrow> string option
    \<Rightarrow> nat option \<Rightarrow> nat list \<Rightarrow> element" where
  "el t a tx ta p ks = \<lparr>etag = t, eattrib = a, etext = tx, etail = ta, eparent = p, ekids = ks\<rparr>"

text \<open>A body that holds three empty paragraphs: \<open><p></p><p></p><p></p>\<close>.\<close>

definition three_empty :: store where
  "three_empty =
     [el ''html'' [] None None None [1],
      el ''body'' [] None None (Some 0) [2, 3, 4],
      el ''p'' [] None None (Some 1) [],
      el ''p'' [] None None (Some 1) [],
      el ''p'' [] None None (Some 1) []]"

text \<open>A body that holds the paragraphs \<open>- A\<close>, \<open>- B\<close>, \<open>- C\<close>.\<close>

definition dash_list :: store where
  "dash_list =
     [el ''html'' [] None None None [1],
      el ''body'' [] None None (Some 0) [2, 3, 4],
      el ''p'' [] (Some ''- A'') None (Some 1) [],
      el ''p'' [] (Some ''- B'') None (Some 1) [],
      el ''p'' [] (Some ''- C'') None (Some 1) []]"



text \<open>\<open><p class="heading1">Chapter One</p>\<close> as the only content of the body.\<close>

definition heading1_doc :: store where
  "heading1_doc =
     [el ''html'' [] None None None [1],
      el ''body'' [] None None (Some 0) [2],
      el ''p'' [(''class'', ''heading1'')] (Some ''Chapter One'') None (Some 1) []]"


text \<open>\<open><p>Plain text</p>\<close> as the only content of the body.\<close>

definition plain_doc :: store where
  "plain_doc =
     [el ''html'' [] None None None [1],
      el ''body'' [] None None (Some 0) [2],
      el ''p'' [] (Some ''Plain text'') None (Some 1) []]"

text \<open>\<open><div>text<p></p></div>\<close> as the only content of the body.\<close>

definition div_doc :: store where
  "div_doc =
     [el ''html'' [] None None None [1],
      el ''body'' [] None None (Some 0) [2],
      el ''div'' [] (Some ''text'') None (Some 1) [3],
      el ''p'' [] None None (Some 2) []]"

definition xhtml_item :: "string \<Rightarrow> path \<Rightarrow> string \<times> ManifestItem" where
  "xhtml_item i h = (i, \<lparr>mid = i, mhref = h, media_type = ''application/xhtml+xml''\<rparr>)"

text \<open>A book of one content document.\<close>

definition one_book :: EpubBook where
  "one_book = \<lparr>root_path = ''/e'', opf_path = ''/e/content.opf'',
                spine_items = [\<lparr>idref = ''c1'', href = ''/e/c1.xhtml''\<rparr>],
                manifest_items = [xhtml_item ''c1'' ''c1.xhtml'']\<rparr>"

definition div_world :: world where
  "div_world = \<lparr>files = (\<lambda>p. if p = ''/e/c1.xhtml'' then Some (XhtmlFile div_doc 0) else None),
                 writes = []\<rparr>"

text \<open>
  A book of two content documents: the first holds a fake heading, the second only a
  paragraph of plain text.
\<close>

definition two_book :: EpubBook where
  "two_book = \<lparr>root_path = ''/e'', opf_path = ''/e/content.opf'',
                spine_items = [\<lparr>idref = ''c1'', href = ''/e/c1.xhtml''\<rparr>,
                               \<lparr>idref = ''c2'', href = ''/e/c2.xhtml''\<rparr>],
                manifest_items = [xhtml_item ''c1'' ''c1.xhtml'', xhtml_item ''c2'' ''c2.xhtml'']\<rparr>"

definition two_world :: world where
  "two_world = \<lparr>files = (\<lambda>p. if p = ''/e/c1.xhtml'' then Some (XhtmlFile heading1_doc 0)
                                else if p = ''/e/c2.xhtml'' then Some (XhtmlFile plain_doc 0)
                                else None),
                 writes = []\<rparr>"

text \<open>The same second document in a book of its own.\<close>

definition plain_world :: world where
  "plain_world = \<lparr>files = (\<lambda>p. if p = ''/e/c1.xhtml'' then Some (XhtmlFile plain_doc 0) else None),
                   writes = []\<rparr>"

section \<open>Well-formed stores\<close>


section \<open>The level of a fake heading, as specified\<close>


section \<open>The retention rule of the break classifier, as specified\<close>





section \<open>Reporter footprint of a rule\<close>

text \<open>
  What a rule may do to the reporter: append change entries, and change the counters of
  the categories in \<open>K\<close> only. \<open>safe_keys\<close> are the categories of the six Safe rules.
\<close>

definition only_touches :: "string set \<Rightarrow> (EpubBook \<Rightarrow> rule_state \<Rightarrow> rule_state) \<Rightarrow> bool" where
  "only_touches K rule = (\<forall>book s. prefix (changes (snd s)) (changes (snd (rule book s)))
       \<and> (\<forall>k. k \<notin> K \<longrightarrow> counters (snd (rule book s)) k = counters (snd s) k))"

definition safe_keys :: "string set" where
  "safe_keys = {''headings.converted_fake_headings'', ''headings.fixed_nesting'',
     ''paragraphs.converted_divs'', ''paragraphs.removed_br_breaks'', ''lists.converted_paragraphs'',
     ''breaks.normalized_scene_breaks'', ''breaks.removed_page_breaks'', ''images.added_alt'',
     ''css.removed_properties'', ''css.modified_properties''}"

section \<open>Counts and the change flag along a rule\<close>

text \<open>
  How the state of a rule at a later point of its work on a document relates to the state
  at an earlier point: the counts have not gone down, the change flag is set only if
  it was set before or a count has gone up, and a flag that was set stays set.
\<close>

definition quiet :: "rstate \<Rightarrow> rstate \<Rightarrow> bool" where
  "quiet s s' = (count1 s \<le> count1 s' \<and> count2 s \<le> count2 s'
      \<and> (if changed s' then changed s \<or> count1 s + count2 s < count1 s' + count2 s' else True)
      \<and> (if changed s then changed s' else True))"

section \<open>Elements out of the tree and in it\<close>



section \<open>Theorems\<close>

lemma get_xhtml_files_loop_filter:
  "get_xhtml_files_loop m ss acc =
     acc @ map href (filter (\<lambda>s. case map_of m (idref s) of None \<Rightarrow> False
        | Some item \<Rightarrow> media_type item = ''application/xhtml+xml'') ss)"
  by (induction ss arbitrary: acc) (auto split: option.splits)

text \<open>
  C10. \<open>get_xhtml_files\<close> is a total function (no spine item makes it raise) whose
  result is the list of hrefs of exactly those spine items, in spine order, whose idref
  has a manifest entry of media type application/xhtml+xml; every other spine item, a
  dangling idref included, is left out.
\<close>

theorem get_xhtml_files_spec:
  "get_xhtml_files book = map href (filter (is_content_document book) (spine_items book))"
  unfolding get_xhtml_files_def is_content_document_def
  by (simp add: get_xhtml_files_loop_filter)

subsection \<open>The break classifier on a run of empty paragraphs\<close>

text \<open>
  C1 (evaluation of the code where the claim fails). On a body that holds three
  consecutive empty paragraphs, the break classifier removes each of the three in its
  first pass, as a page break; the scan for runs of empty paragraphs then finds none.
  The document written has an empty body and no horizontal rule, the scene-break count
  stays 0 and the count of removed page breaks is 3.
\<close>

theorem three_empty_paragraphs_removed_as_page_breaks:
  "breaks_body (three_empty, 0) (0, 0) =
     ((0, 3),
      Inr (Some (XhtmlFile
                   [el ''html'' [] None None None [1],
                    el ''body'' [] None None (Some 0) [],
                    el ''p'' [] None None None [],
                    el ''p'' [] None None None [],
                    el ''p'' [] None None None []] 0),
           Some ''Removed 3 page breaks''))"
  by code_simp

subsection \<open>The list normalizer on three dash paragraphs\<close>

text \<open>
  C2 (evaluation of the code where the claim fails). On the paragraphs \<open>- A\<close>, \<open>- B\<close>,
  \<open>- C\<close> the list normalizer builds a \<open>ul\<close> with the three items and removes the
  paragraphs, but never inserts the list: when it asks the first paragraph for its parent,
  the paragraph is already removed. The document written has an empty body; the list
  (cell 5) hangs nowhere.
\<close>

theorem dash_paragraphs_removed_and_list_not_inserted:
  "lists_body (dash_list, 0) 0 =
     (1,
      Inr (Some (XhtmlFile
                   [el ''html'' [] None None None [1],
                    el ''body'' [] None None (Some 0) [],
                    el ''p'' [] (Some ''- A'') None None [],
                    el ''p'' [] (Some ''- B'') None None [],
                    el ''p'' [] (Some ''- C'') None None [],
                    el ''ul'' [] None None None [6, 7, 8],
                    el ''li'' [] (Some ''A'') None (Some 5) [],
                    el ''li'' [] (Some ''B'') None (Some 5) [],
                    el ''li'' [] (Some ''C'') None (Some 5) []] 0),
           Some ''Created 1 semantic lists''))"
  by code_simp

subsection \<open>The navigation document of a nested NCX\<close>

text \<open>
  C3 (evaluation of the code where the claim fails). For an NCX whose single top-level
  entry (Part I) has one child entry (Chapter 1), the list of the navigation document has
  two top-level items: Part I with Chapter 1 nested in it, and Chapter 1 once more. The
  list that mirrors the NCX has the first item only.
\<close>

theorem nested_entry_listed_twice:
  "convert_ncx_to_nav_xhtml nested_ncx =
     Inr (Xml ''html'' [(''xmlns'', ''http://www.w3.org/1999/xhtml''),
                        (''xmlns_epub'', ''http://www.idpf.org/2007/ops'')] None
            [Xml ''head'' [] None [Xml ''title'' [] (Some ''Table of Contents'') []],
             Xml ''body'' [] None
               [Xml ''nav'' [(''epub:type'', ''toc'')] None
                  [Xml ''h1'' [] (Some ''Table of Contents'') [],
                   Xml ''ol'' [] None
                     [Xml ''li'' [] None
                        [nav_link ''Part I'' ''part1.xhtml'',
                         Xml ''ol'' [] None [Xml ''li'' [] None [nav_link ''Chapter 1'' ''ch1.xhtml'']]],
                      Xml ''li'' [] None [nav_link ''Chapter 1'' ''ch1.xhtml'']]]]])
   \<and> mirror_nav_map nested_nav_map =
       [Xml ''li'' [] None
          [nav_link ''Part I'' ''part1.xhtml'',
           Xml ''ol'' [] None [Xml ''li'' [] None [nav_link ''Chapter 1'' ''ch1.xhtml'']]]]"
  by code_simp

subsection \<open>CSS cleanup\<close>

lemma nothing_dropped:
  "font_size_dropped d = False" "line_height_dropped d = False" "display_dropped d = False"
  by (cases d; simp add: font_size_dropped_def line_height_dropped_def display_dropped_def
        hasattr_name_def is_absolute_size_def is_fixed_line_height_def is_flex_or_grid_def
        value_str_def)+

lemma drop_loop_nothing:
  "(\<And>d. dropped d = False) \<Longrightarrow> drop_loop guard dropped rules n ch = (e, rs, n', ch') \<Longrightarrow> n' = n \<and> ch' = ch"
proof (induction rules arbitrary: e rs n' ch')
  case Nil
  then show ?case by simp
next
  case (Cons r rules)
  show ?case
  proof (cases "guard r")
    case False
    with Cons show ?thesis by (auto split: prod.splits)
  next
    case True
    with Cons show ?thesis
      by (cases r) (auto split: prod.splits option.splits)
  qed
qed

text \<open>
  Whatever the stylesheet, the Safe cleanup removes no component of any rule: its count
  stays where it was.
\<close>

lemma safe_css_body_count: "fst (safe_css_body rules n) = n"
proof -
  obtain e1 rs1 n1 c1 where p1: "drop_loop font_size_guard font_size_dropped rules n False = (e1, rs1, n1, c1)"
    by (metis prod_cases4)
  obtain e2 rs2 n2 c2 where p2: "drop_loop hasattr_content line_height_dropped rs1 n1 c1 = (e2, rs2, n2, c2)"
    by (metis prod_cases4)
  obtain e3 rs3 n3 c3 where p3: "drop_loop hasattr_content display_dropped rs2 n2 c2 = (e3, rs3, n3, c3)"
    by (metis prod_cases4)
  have "n1 = n" using drop_loop_nothing [OF _ p1] by (simp add: nothing_dropped)
  moreover have "n2 = n1" using drop_loop_nothing [OF _ p2] by (simp add: nothing_dropped)
  moreover have "n3 = n2" using drop_loop_nothing [OF _ p3] by (simp add: nothing_dropped)
  ultimately show ?thesis
    using p1 p2 p3 by (simp add: safe_css_body_def split: option.splits)
qed

text \<open>
  C6 (evaluation of the code where the claim fails). On the rule
  \<open>body { font-size: 12px; line-height: 1.0; font-family: serif; }\<close> the Safe cleanup
  removes nothing and does not flag the stylesheet as changed, and neither does the
  Aggressive cleanup: the content of a parsed rule is a list of tokens, none of which has
  a \<open>name\<close> attribute equal to a property name.
\<close>

theorem body_rule_left_unchanged:
  "safe_css_body [body_rule] 0 = (0, Inr ([body_rule], False))
   \<and> aggressive_css_body [body_rule] 0 = (0, Inr ([body_rule], False))"
  by code_simp


subsection \<open>Safe and Aggressive rule sets\<close>

lemma counters_increment:
  "counters (increment rep k n) k' =
     (if k' = k then Some ((case counters rep k of None \<Rightarrow> 0 | Some m \<Rightarrow> m) + n) else counters rep k')"
  by (simp add: increment_def)

lemma changes_increment: "changes (increment rep k n) = changes rep"
  by (simp add: increment_def)

lemma counters_log_change: "counters (log_change rep p d) = counters rep"
  by (simp add: log_change_def)

lemma changes_log_change: "changes (log_change rep p d) = changes rep @ [(p, d)]"
  by (simp add: log_change_def)

lemma file_step_frame:
  "file_step missing err parse body path (w, rep, c) = (w', rep', c')
   \<Longrightarrow> counters rep' = counters rep \<and> prefix (changes rep) (changes rep')"
  by (auto simp: file_step_def counters_log_change changes_log_change
           split: option.splits sum.splits prod.splits)

lemma files_loop_frame:
  "files_loop missing err parse body paths (w, rep, c) = (w', rep', c')
   \<Longrightarrow> counters rep' = counters rep \<and> prefix (changes rep) (changes rep')"
proof (induction paths arbitrary: w rep c)
  case Nil
  then show ?case by simp
next
  case (Cons path paths)
  obtain w1 rep1 c1 where st: "file_step missing err parse body path (w, rep, c) = (w1, rep1, c1)"
    by (metis prod_cases3)
  with Cons.prems have "files_loop missing err parse body paths (w1, rep1, c1) = (w', rep', c')"
    by simp
  from Cons.IH [OF this] file_step_frame [OF st] show ?case
    by (auto intro: prefix_order.trans)
qed

lemma only_touches_pair:
  assumes "\<And>book s. rule book s =
      (case files_loop missing err parse body (paths book s) (fst s, snd s, c0) of
         (w, rep, c) \<Rightarrow> (w, increment (increment rep k1 (f c)) k2 (g c)))"
  shows "only_touches {k1, k2} rule"
  unfolding only_touches_def
proof (intro allI conjI impI)
  fix book s
  obtain w rep c where fl: "files_loop missing err parse body (paths book s) (fst s, snd s, c0) = (w, rep, c)"
    by (metis prod_cases3)
  from files_loop_frame [OF fl] assms [of book s] fl
  show "prefix (changes (snd s)) (changes (snd (rule book s)))"
    by (simp add: changes_increment)
  fix k assume "k \<notin> {k1, k2}"
  with files_loop_frame [OF fl] assms [of book s] fl
  show "counters (snd (rule book s)) k = counters (snd s) k"
    by (simp add: counters_increment)
qed

lemma only_touches_single:
  assumes "\<And>book s. rule book s =
      (case files_loop missing err parse body (paths book s) (fst s, snd s, c0) of
         (w, rep, a) \<Rightarrow> (w, increment rep k1 a))"
  shows "only_touches {k1} rule"
  unfolding only_touches_def
proof (intro allI conjI impI)
  fix book s
  obtain w rep a where fl: "files_loop missing err parse body (paths book s) (fst s, snd s, c0) = (w, rep, a)"
    by (metis prod_cases3)
  from files_loop_frame [OF fl] assms [of book s] fl
  show "prefix (changes (snd s)) (changes (snd (rule book s)))"
    by (simp add: changes_increment)
  fix k assume "k \<notin> {k1}"
  with files_loop_frame [OF fl] assms [of book s] fl
  show "counters (snd (rule book s)) k = counters (snd s) k"
    by (simp add: counters_increment)
qed

lemma touches_headings: "only_touches {''headings.converted_fake_headings'', ''headings.fixed_nesting''} normalize_headings"
  by (rule only_touches_pair [where paths = "\<lambda>book s. get_xhtml_files book" and f = fst and g = snd])
     (simp add: normalize_headings_def split_beta)

lemma touches_paragraphs: "only_touches {''paragraphs.converted_divs'', ''paragraphs.removed_br_breaks''} normalize_paragraphs_and_indents"
  by (rule only_touches_pair [where paths = "\<lambda>book s. get_xhtml_files book" and f = fst and g = snd])
     (simp add: normalize_paragraphs_and_indents_def split_beta)

lemma touches_lists: "only_touches {''lists.converted_paragraphs''} normalize_lists"
  by (rule only_touches_single [where paths = "\<lambda>book s. get_xhtml_files book"]) (simp add: normalize_lists_def)

lemma touches_breaks: "only_touches {''breaks.normalized_scene_breaks'', ''breaks.removed_page_breaks''} normalize_context_breaks"
  by (rule only_touches_pair [where paths = "\<lambda>book s. get_xhtml_files book" and f = fst and g = snd])
     (simp add: normalize_context_breaks_def split_beta)

lemma touches_images: "only_touches {''images.added_alt''} normalize_images"
  by (rule only_touches_single [where paths = "\<lambda>book s. get_xhtml_files book"]) (simp add: normalize_images_def)

lemma touches_css_safe: "only_touches {''css.removed_properties'', ''css.modified_properties''} simplify_css_safe"
  by (rule only_touches_pair [where paths = "\<lambda>book s. get_css_files book (fst s)" and f = "\<lambda>c. c" and g = "\<lambda>c. 0"])
     (simp add: simplify_css_safe_def)

lemma touches_css_aggressive: "only_touches {''css.removed_font_families'', ''css.removed_font_faces''} simplify_css_aggressive"
  by (rule only_touches_pair [where paths = "\<lambda>book s. get_css_files book (fst s)" and f = "\<lambda>c. c" and g = "\<lambda>c. 0"])
     (simp add: simplify_css_aggressive_def)

lemma only_touches_mono: "only_touches K rule \<Longrightarrow> K \<subseteq> K' \<Longrightarrow> only_touches K' rule"
  unfolding only_touches_def by blast

lemma apply_rules_touches:
  "(\<And>r. r \<in> set rules \<Longrightarrow> only_touches K r)
   \<Longrightarrow> prefix (changes (snd s)) (changes (snd (apply_rules rules book s)))
       \<and> (\<forall>k. k \<notin> K \<longrightarrow> counters (snd (apply_rules rules book s)) k = counters (snd s) k)"
proof (induction rules arbitrary: s)
  case Nil
  then show ?case by simp
next
  case (Cons r rules)
  have r: "only_touches K r" using Cons.prems by simp
  have IH: "prefix (changes (snd (r book s))) (changes (snd (apply_rules rules book (r book s))))
       \<and> (\<forall>k. k \<notin> K \<longrightarrow> counters (snd (apply_rules rules book (r book s))) k = counters (snd (r book s)) k)"
    using Cons.IH [of "r book s"] Cons.prems by simp
  from r have "prefix (changes (snd s)) (changes (snd (r book s)))"
    and "\<forall>k. k \<notin> K \<longrightarrow> counters (snd (r book s)) k = counters (snd s) k"
    unfolding only_touches_def by blast+
  with IH show ?case
    by (auto intro: prefix_order.trans)
qed

lemma safe_rules_touch: "r \<in> set SAFE_RULES \<Longrightarrow> only_touches safe_keys r"
  unfolding SAFE_RULES_def safe_keys_def
  using touches_headings touches_paragraphs touches_lists touches_breaks touches_images touches_css_safe
  by (auto elim!: only_touches_mono)

lemma apply_rules_append:
  "apply_rules (rs @ [r]) book s = r book (apply_rules rs book s)"
  by (induction rs arbitrary: s) auto

text \<open>
  C7. The Aggressive rule sequence is the Safe sequence followed by
  \<open>simplify_css_aggressive\<close>, which only appends change entries and sets two counters
  that no Safe rule touches. So on the same book and files the change log of the Safe run
  is a prefix of the change log of the Aggressive run, and every counter of the Safe run
  has the same value in the Aggressive run.
\<close>

theorem safe_results_appear_in_aggressive:
  "prefix (changes (snd (run_repair ''safe'' book w))) (changes (snd (run_repair ''aggressive'' book w)))
   \<and> (\<forall>k v. counters (snd (run_repair ''safe'' book w)) k = Some v
          \<longrightarrow> counters (snd (run_repair ''aggressive'' book w)) k = Some v)"
proof -
  let ?s0 = "(w, new_reporter)"
  let ?safe = "apply_rules SAFE_RULES book ?s0"
  have agg: "run_repair ''aggressive'' book w = simplify_css_aggressive book ?safe"
    by (simp add: run_repair_def AGGRESSIVE_RULES_def apply_rules_append)
  have safe: "run_repair ''safe'' book w = ?safe"
    by (simp add: run_repair_def)
  have fr: "\<forall>k. k \<notin> safe_keys \<longrightarrow> counters (snd ?safe) k = None"
    using apply_rules_touches [of SAFE_RULES safe_keys ?s0 book] safe_rules_touch
    by (simp add: new_reporter_def)
  have a1: "prefix (changes (snd ?safe)) (changes (snd (simplify_css_aggressive book ?safe)))"
    and a2: "\<forall>k. k \<notin> {''css.removed_font_families'', ''css.removed_font_faces''}
        \<longrightarrow> counters (snd (simplify_css_aggressive book ?safe)) k = counters (snd ?safe) k"
    using touches_css_aggressive unfolding only_touches_def by blast+
  have "''css.removed_font_families'' \<notin> safe_keys" "''css.removed_font_faces'' \<notin> safe_keys"
    by (simp_all add: safe_keys_def)
  with fr have none: "counters (snd ?safe) ''css.removed_font_families'' = None"
    "counters (snd ?safe) ''css.removed_font_faces'' = None" by blast+
  show ?thesis
    unfolding agg safe
  proof (intro conjI allI impI)
    show "prefix (changes (snd ?safe)) (changes (snd (simplify_css_aggressive book ?safe)))" by (rule a1)
    fix k v assume kv: "counters (snd ?safe) k = Some v"
    with none have "k \<notin> {''css.removed_font_families'', ''css.removed_font_faces''}" by auto
    with a2 kv show "counters (snd (simplify_css_aggressive book ?safe)) k = Some v" by simp
  qed
qed

text \<open>The same on the book of one document \<open><div>text<p></p></div>\<close>.\<close>

theorem safe_results_appear_in_aggressive_witness:
  "counters (snd (run_repair ''safe'' one_book div_world)) ''breaks.removed_page_breaks'' = Some 1
   \<and> counters (snd (run_repair ''aggressive'' one_book div_world)) ''breaks.removed_page_breaks'' = Some 1
   \<and> prefix (changes (snd (run_repair ''safe'' one_book div_world)))
       (changes (snd (run_repair ''aggressive'' one_book div_world)))"
proof -
  have s: "counters (snd (run_repair ''safe'' one_book div_world)) ''breaks.removed_page_breaks'' = Some 1"
    by code_simp
  with safe_results_appear_in_aggressive [of one_book div_world] show ?thesis by blast
qed

subsection \<open>Writing and logging of unchanged documents\<close>

text \<open>
  C9 (evaluation of the code where the claim fails). In a book of two documents of
  which only the first holds a fake heading, the heading normalizer makes no edit in the
  second document (run on it alone, it neither writes nor logs), yet it writes the second
  document back, unchanged, and logs a change for it: the test before writing reads the
  counts of the whole rule, not those of the document.
\<close>

theorem unchanged_document_written_and_logged:
  "headings_body (plain_doc, 0) (0, 0) = ((0, 0), Inr (None, None))
   \<and> writes (fst (normalize_headings two_book (two_world, new_reporter)))
       = [''/e/c1.xhtml'', ''/e/c2.xhtml'']
   \<and> changes (snd (normalize_headings two_book (two_world, new_reporter)))
       = [(''/e/c1.xhtml'', ''Converted 1 fake headings, fixed 0 nesting issues''),
          (''/e/c2.xhtml'', ''Converted 1 fake headings, fixed 0 nesting issues'')]
   \<and> files (fst (normalize_headings two_book (two_world, new_reporter))) ''/e/c2.xhtml''
       = Some (XhtmlFile plain_doc 0)"
  by code_simp


subsection \<open>Removal from a well-formed store\<close>
























subsection \<open>Conversion of a fake heading\<close>







declare move_children.simps [simp del]




lemma filter_filter_notin:
  "filter (\<lambda>k. k \<notin> set rest) (filter (\<lambda>k. k \<noteq> c) ks) = filter (\<lambda>k. k \<notin> set (c # rest)) ks"
  by (induction ks) auto









subsection \<open>A Safe run without increments\<close>

lemma quiet_refl: "quiet s s"
  by (simp add: quiet_def)

lemma quiet_trans: "quiet s s1 \<Longrightarrow> quiet s1 s2 \<Longrightarrow> quiet s s2"
  by (auto simp: quiet_def split: if_splits)

lemma quiet_store: "quiet s (s\<lparr>rstore := st\<rparr>)"
  by (simp add: quiet_def)

lemma quiet_count1: "quiet s (s\<lparr>rstore := st, count1 := count1 s + 1\<rparr>)"
  by (simp add: quiet_def)

lemma quiet_count2: "quiet s (s\<lparr>rstore := st, count2 := count2 s + 1\<rparr>)"
  by (simp add: quiet_def)

lemma quiet_count1_changed: "quiet s (s\<lparr>rstore := st, count1 := count1 s + 1, changed := True\<rparr>)"
  by (simp add: quiet_def)

lemma quiet_count2_changed: "0 < n \<Longrightarrow> quiet s (s\<lparr>rstore := st, count2 := count2 s + n, changed := True\<rparr>)"
  by (simp add: quiet_def)

lemma div_loop_quiet: "quiet s (div_loop ds s)"
proof (induction ds arbitrary: s)
  case Nil
  show ?case by (simp add: quiet_refl)
next
  case (Cons d ds)
  show ?case
    using quiet_trans [OF quiet_count1_changed Cons.IH] by simp
qed

lemma remove_loop_quiet: "quiet s (fst (remove_loop xs s))"
proof (induction xs arbitrary: s)
  case Nil
  show ?case by (simp add: quiet_refl)
next
  case (Cons x xs)
  show ?case
  proof (cases "getparent (rstore s) x")
    case None
    then show ?thesis using Cons.IH by simp
  next
    case (Some parent)
    show ?thesis
    proof (cases "remove_child (rstore s) parent x")
      case (Inl e)
      with Some show ?thesis by (simp add: quiet_refl)
    next
      case (Inr st')
      have "quiet s (s\<lparr>rstore := st', count2 := count2 s + 1, changed := True\<rparr>)"
        by (rule quiet_count2_changed) simp
      from quiet_trans [OF this Cons.IH] Some Inr show ?thesis by simp
    qed
  qed
qed

lemma convert_loop_quiet: "quiet s (fst (convert_loop ps s))"
proof (induction ps arbitrary: s)
  case Nil
  show ?case by (simp add: quiet_refl)
next
  case (Cons p ps)
  show ?case
  proof (cases "determine_heading_level (rstore s) p = 0")
    case True
    then show ?thesis using Cons.IH by simp
  next
    case False
    show ?thesis
    proof (cases "convert_to_heading (rstore s) p (determine_heading_level (rstore s) p)")
      case (Inl e)
      with False show ?thesis by (simp add: quiet_refl)
    next
      case (Inr st')
      from quiet_trans [OF quiet_count1 Cons.IH] False Inr show ?thesis by simp
    qed
  qed
qed

lemma pattern_loop_quiet: "quiet s (fst (pattern_loop kws root s))"
proof (induction kws arbitrary: s)
  case Nil
  show ?case by (simp add: quiet_refl)
next
  case (Cons kw kws)
  obtain s1 e where c: "convert_loop (xpath_p_class_contains (rstore s) root kw) s = (s1, e)"
    by (cases "convert_loop (xpath_p_class_contains (rstore s) root kw) s")
  have q1: "quiet s s1" using convert_loop_quiet [of s "xpath_p_class_contains (rstore s) root kw"] c by simp
  show ?case
  proof (cases e)
    case None
    with c quiet_trans [OF q1 Cons.IH] show ?thesis by simp
  next
    case (Some x)
    with c q1 show ?thesis by simp
  qed
qed

lemma nesting_loop_quiet: "quiet s (fst (nesting_loop hs s))"
proof (induction hs arbitrary: s)
  case Nil
  show ?case by (simp add: quiet_refl)
next
  case (Cons h hs)
  show ?case
  proof (cases "getparent (rstore s) h")
    case None
    then show ?thesis using Cons.IH by simp
  next
    case (Some parent)
    show ?thesis
    proof (cases "etag (rstore s ! parent) = ''p''")
      case False
      with Some show ?thesis using Cons.IH by simp
    next
      case True
      show ?thesis
      proof (cases "addprevious (rstore s) parent h")
        case (Inl e)
        with Some True show ?thesis by (simp add: quiet_refl)
      next
        case (Inr st1)
        show ?thesis
        proof (cases "truthy (etext (st1 ! parent)) \<or> length (ekids (st1 ! parent)) > 0")
          case True
          with quiet_trans [OF quiet_count2 Cons.IH] Some \<open>etag (rstore s ! parent) = ''p''\<close> Inr
          show ?thesis by simp
        next
          case False
          show ?thesis
          proof (cases "getparent st1 parent")
            case None
            with Some \<open>etag (rstore s ! parent) = ''p''\<close> Inr False show ?thesis
              by (simp add: quiet_store)
          next
            case (Some gp)
            show ?thesis
            proof (cases "remove_child st1 gp parent")
              case (Inl e)
              with Some \<open>getparent (rstore s) h = Some parent\<close> \<open>etag (rstore s ! parent) = ''p''\<close> Inr False
              show ?thesis by (simp add: quiet_store)
            next
              case (Inr st2)
              with quiet_trans [OF quiet_count2 Cons.IH] Some \<open>getparent (rstore s) h = Some parent\<close>
                \<open>etag (rstore s ! parent) = ''p''\<close> \<open>addprevious (rstore s) parent h = Inr st1\<close> False
              show ?thesis by simp
            qed
          qed
        qed
      qed
    qed
  qed
qed

lemma img_loop_quiet: "quiet s (img_loop is s)"
proof (induction "is" arbitrary: s)
  case Nil
  show ?case by (simp add: quiet_refl)
next
  case (Cons i "is")
  show ?case
    using quiet_trans [OF quiet_count1_changed Cons.IH] Cons.IH by simp
qed

lemma style_step_quiet: "quiet s (style_step elem s)"
  by (simp add: style_step_def Let_def quiet_refl quiet_def)

lemma style_loop_quiet: "quiet s (style_loop es s)"
proof (induction es arbitrary: s)
  case Nil
  show ?case by (simp add: quiet_refl)
next
  case (Cons e es)
  show ?case using quiet_trans [OF style_step_quiet Cons.IH] by simp
qed

lemma lists_loop_quiet: "quiet s (fst (lists_loop ps s))"
proof (induction ps s rule: lists_loop.induct)
  case (1 s)
  show ?case by (simp add: quiet_refl)
next
  case (2 p ps s)
  let ?tx = "strip (or_empty (etext (rstore s ! p)))"
  let ?u = "unordered_match ?tx \<noteq> None"
  let ?o = "ordered_match ?tx \<noteq> None"
  show ?case
  proof (cases "?u \<or> ?o")
    case False
    have "quiet s (fst (lists_loop ps s))"
      using "2.IH"(3) [OF refl refl refl False] .
    with False show ?thesis by (simp add: Let_def)
  next
    case True
    obtain items left where c: "collect_items (rstore s) ?u ?o (p # ps) = (items, left)"
      by (cases "collect_items (rstore s) ?u ?o (p # ps)")
    show ?thesis
    proof (cases "items = []")
      case e: True
      have "quiet s (fst (lists_loop ps s))"
        using "2.IH"(1) [OF refl refl refl True c [symmetric] e] .
      with True c e show ?thesis by (simp add: Let_def del: collect_items.simps)
    next
      case ne: False
      show ?thesis
      proof (cases "make_list items ?o (rstore s)")
        case (Inl e)
        with True c ne show ?thesis by (simp add: Let_def quiet_refl del: collect_items.simps)
      next
        case (Inr st')
        have "quiet (s\<lparr>rstore := st', count1 := count1 s + 1\<rparr>)
                (fst (lists_loop left (s\<lparr>rstore := st', count1 := count1 s + 1\<rparr>)))"
          using "2.IH"(2) [OF refl refl refl True c [symmetric] ne Inr] .
        from quiet_trans [OF quiet_count1 this] True c ne Inr
        show ?thesis by (simp add: Let_def del: collect_items.simps)
      qed
    qed
  qed
qed

lemma scene_loop_quiet: "quiet s (fst (scene_loop ps i s))"
proof (induction "length ps - i" arbitrary: i s rule: less_induct)
  case less
  show ?case
  proof (cases "i < length ps")
    case False
    then show ?thesis by (subst scene_loop.simps) (simp add: quiet_refl)
  next
    case True
    let ?run = "takeWhile (is_empty_paragraph (rstore s)) (drop i ps)"
    let ?i1 = "i + length ?run"
    let ?i2 = "if ?i1 < length ps then ?i1 + 1 else ?i1"
    have "length ?run \<le> length (drop i ps)" by (rule length_takeWhile_le)
    then have dec: "length ps - ?i2 < length ps - i" using True by auto
    note IH = less.hyps [OF dec]
    show ?thesis
    proof (cases "length ?run \<ge> 2")
      case False
      have "scene_loop ps i s = scene_loop ps ?i2 s"
        using True False by (subst scene_loop.simps) (simp add: Let_def)
      with IH [of s] show ?thesis by simp
    next
      case two: True
      obtain st1 hr where ne: "new_element (rstore s) ''hr'' = (st1, hr)"
        by (cases "new_element (rstore s) ''hr''")
      let ?st2 = "set_attr st1 hr ''class'' ''scene-break''"
      show ?thesis
      proof (cases "getparent ?st2 (ps ! i)")
        case None
        have "scene_loop ps i s = scene_loop ps ?i2 (s\<lparr>rstore := ?st2\<rparr>)"
          using True two ne None by (subst scene_loop.simps) (simp add: Let_def)
        with quiet_trans [OF quiet_store IH] show ?thesis by simp
      next
        case (Some parent)
        show ?thesis
        proof (cases "remove_run ?run parent ?st2")
          case (Inl e)
          have "scene_loop ps i s = (s\<lparr>rstore := ?st2\<rparr>, Some e)"
            using True two ne Some Inl by (subst scene_loop.simps) (simp add: Let_def)
          then show ?thesis by (simp add: quiet_store)
        next
          case (Inr st3)
          have "scene_loop ps i s = scene_loop ps ?i2
                  (s\<lparr>rstore := insert_child st3 parent i hr, count1 := count1 s + 1, changed := True\<rparr>)"
            using True two ne Some Inr by (subst scene_loop.simps) (simp add: Let_def)
          with quiet_trans [OF quiet_count1_changed IH] show ?thesis by simp
        qed
      qed
    qed
  qed
qed

lemma br_loop_quiet: "quiet s (fst (br_loop bs s))"
proof (induction bs arbitrary: s)
  case Nil
  show ?case by (simp add: quiet_refl)
next
  case (Cons br bs)
  show ?case
  proof (cases "getparent (rstore s) br")
    case None
    then show ?thesis using Cons.IH by simp
  next
    case (Some parent)
    let ?st = "rstore s"
    let ?n = "1 + length (takeWhile (is_br ?st) (following_siblings ?st br))"
    let ?b = "before_keyword_heading ?st br"
    consider (a) "?n \<ge> 3" "\<not> ?b" | (b) "?n \<ge> 3" "?b" | (c) "\<not> ?n \<ge> 3" by blast
    then show ?thesis
    proof cases
      case c
      with Some Cons.IH [of s] show ?thesis by (simp add: Let_def)
    next
      case b
      show ?thesis
      proof (cases "remove_next_brs (?n - 1) br parent ?st")
        case (Inl e)
        with Some b show ?thesis by (simp add: Let_def quiet_refl)
      next
        case (Inr st1)
        have "quiet s (s\<lparr>rstore := st1, count2 := count2 s + (?n - 1), changed := True\<rparr>)"
          using b by (intro quiet_count2_changed) (cases "takeWhile (is_br ?st) (following_siblings ?st br)", simp_all)
        from quiet_trans [OF this Cons.IH] Some b Inr show ?thesis by (simp add: Let_def)
      qed
    next
      case a
      obtain st1 hr where ne: "new_element ?st ''hr'' = (st1, hr)"
        by (cases "new_element ?st ''hr''")
      let ?st2 = "set_attr st1 hr ''class'' ''scene-break''"
      show ?thesis
      proof (cases "replace_child ?st2 parent br hr")
        case (Inl e)
        with Some a ne show ?thesis by (simp add: Let_def quiet_refl)
      next
        case (Inr st3)
        show ?thesis
        proof (cases "remove_next_brs (?n - 1) hr parent st3")
          case (Inl e)
          with Some a ne \<open>replace_child ?st2 parent br hr = Inr st3\<close> show ?thesis
            by (simp add: Let_def quiet_refl)
        next
          case (Inr st4)
          from quiet_trans [OF quiet_count1_changed Cons.IH] Some a ne
            \<open>replace_child ?st2 parent br hr = Inr st3\<close> Inr
          show ?thesis by (simp add: Let_def)
        qed
      qed
    qed
  qed
qed

lemma quietD:
  assumes "quiet s s'"
  shows "count1 s \<le> count1 s'" and "count2 s \<le> count2 s'"
    and "changed s' \<Longrightarrow> \<not> changed s \<Longrightarrow> count1 s + count2 s < count1 s' + count2 s'"
  using assms by (auto simp: quiet_def split: if_splits)

lemma img_loop_count2: "count2 (img_loop xs s) = count2 s"
  by (induction xs arbitrary: s) auto

lemma file_step_quiet:
  assumes mono: "\<And>d c. (m c :: nat) \<le> m (fst (body d c))"
    and nw: "\<And>d c f msg. snd (body d c) = Inr (Some f, msg) \<Longrightarrow> 0 < m (fst (body d c))"
    and st: "file_step missing err parse body path (w, rep, c) = (w', rep', c')"
  shows "m c \<le> m c' \<and> (m c' = 0 \<longrightarrow> w' = w)"
proof (cases "files w path")
  case None
  with st show ?thesis by (simp add: file_step_def)
next
  case (Some f)
  show ?thesis
  proof (cases "parse f")
    case (Inl e)
    with st Some show ?thesis by (simp add: file_step_def)
  next
    case (Inr d)
    obtain c1 r where b: "body d c = (c1, r)" by (cases "body d c")
    from mono [of c d] b have m1: "m c \<le> m c1" by simp
    show ?thesis
    proof (cases r)
      case (Inl e)
      with st Some Inr b m1 show ?thesis by (simp add: file_step_def)
    next
      case r: (Inr om)
      obtain out msg where om: "om = (out, msg)" by (cases om)
      show ?thesis
      proof (cases out)
        case None
        with st Some Inr b m1 r om show ?thesis by (simp add: file_step_def)
      next
        case out: (Some f')
        from nw [of d c f' msg] b r om out have "0 < m c1" by simp
        with st Some Inr b m1 r om out show ?thesis by (auto simp: file_step_def)
      qed
    qed
  qed
qed

lemma files_loop_quiet:
  assumes mono: "\<And>d c. (m c :: nat) \<le> m (fst (body d c))"
    and nw: "\<And>d c f msg. snd (body d c) = Inr (Some f, msg) \<Longrightarrow> 0 < m (fst (body d c))"
  shows "files_loop missing err parse body paths (w, rep, c) = (w', rep', c')
         \<Longrightarrow> m c \<le> m c' \<and> (m c' = 0 \<longrightarrow> w' = w)"
proof (induction paths arbitrary: w rep c)
  case Nil
  then show ?case by simp
next
  case (Cons path paths)
  obtain w1 rep1 c1 where st: "file_step missing err parse body path (w, rep, c) = (w1, rep1, c1)"
    by (metis prod_cases3)
  with Cons.prems have "files_loop missing err parse body paths (w1, rep1, c1) = (w', rep', c')"
    by simp
  moreover have "m c \<le> m c1 \<and> (m c1 = 0 \<longrightarrow> w1 = w)"
    using mono nw st by (rule file_step_quiet)
  ultimately show ?case
    using Cons.IH [of w1 rep1 c1] by auto
qed

lemma headings_body_quiet:
  "fst c + snd c \<le> fst (fst (headings_body d c)) + snd (fst (headings_body d c))"
  "snd (headings_body d c) = Inr (Some f, msg)
   \<Longrightarrow> 0 < fst (fst (headings_body d c)) + snd (fst (headings_body d c))"
proof -
  obtain st root where d: "d = (st, root)" by (cases d)
  let ?s0 = "\<lparr>rstore = st, count1 = fst c, count2 = snd c, changed = False\<rparr>"
  let ?p = "pattern_loop [''heading'', ''chapter'', ''section'', ''title''] root ?s0"
  let ?s1 = "fst ?p"
  let ?n = "nesting_loop (xpath_nested_headings (rstore ?s1) root) ?s1"
  let ?s2 = "fst ?n"
  have q1: "quiet ?s0 ?s1" by (rule pattern_loop_quiet)
  have q2: "quiet ?s0 ?s2" by (rule quiet_trans [OF q1 nesting_loop_quiet])
  have res: "fst (headings_body d c) = (count1 ?s1, count2 ?s1) \<and> (\<exists>e. snd (headings_body d c) = Inl e)
      \<or> fst (headings_body d c) = (count1 ?s2, count2 ?s2) \<and> (\<exists>e. snd (headings_body d c) = Inl e)
      \<or> fst (headings_body d c) = (count1 ?s2, count2 ?s2)
        \<and> snd (headings_body d c) = Inr (if count1 ?s2 > 0 \<or> count2 ?s2 > 0
             then (Some (XhtmlFile (rstore ?s2) root),
                   Some (''Converted '' @ str_nat (count1 ?s2) @ '' fake headings, fixed ''
                         @ str_nat (count2 ?s2) @ '' nesting issues''))
             else (None, None))"
    unfolding d headings_body_def
    by (cases ?p; cases ?n) (auto split: option.splits)
  from res quietD(1,2) [OF q1] quietD(1,2) [OF q2]
  show "fst c + snd c \<le> fst (fst (headings_body d c)) + snd (fst (headings_body d c))"
    by auto
  assume "snd (headings_body d c) = Inr (Some f, msg)"
  with res show "0 < fst (fst (headings_body d c)) + snd (fst (headings_body d c))"
    by (auto split: if_splits)
qed

lemma paragraphs_body_quiet:
  "fst c + snd c \<le> fst (fst (paragraphs_body d c)) + snd (fst (paragraphs_body d c))"
  "snd (paragraphs_body d c) = Inr (Some f, msg)
   \<Longrightarrow> 0 < fst (fst (paragraphs_body d c)) + snd (fst (paragraphs_body d c))"
proof -
  obtain st root where d: "d = (st, root)" by (cases d)
  let ?s0 = "\<lparr>rstore = st, count1 = fst c, count2 = snd c, changed = False\<rparr>"
  let ?s1 = "div_loop (xpath_inline_divs st root) ?s0"
  let ?r2 = "remove_loop (xpath_br_after_br (rstore ?s1) root) ?s1"
  let ?s2 = "fst ?r2"
  let ?r3 = "remove_loop (xpath_trailing_br (rstore ?s2) root) ?s2"
  let ?s3 = "fst ?r3"
  have q1: "quiet ?s0 ?s1" by (rule div_loop_quiet)
  have q2: "quiet ?s0 ?s2" by (rule quiet_trans [OF q1 remove_loop_quiet])
  have q3: "quiet ?s0 ?s3" by (rule quiet_trans [OF q2 remove_loop_quiet])
  have res: "fst (paragraphs_body d c) = (count1 ?s2, count2 ?s2) \<and> (\<exists>e. snd (paragraphs_body d c) = Inl e)
      \<or> fst (paragraphs_body d c) = (count1 ?s3, count2 ?s3) \<and> (\<exists>e. snd (paragraphs_body d c) = Inl e)
      \<or> fst (paragraphs_body d c) = (count1 ?s3, count2 ?s3)
        \<and> (\<exists>x. snd (paragraphs_body d c) = Inr (if changed ?s3 then x else (None, None)))"
    unfolding d paragraphs_body_def Let_def
    by (cases ?r2; cases ?r3) (auto split: option.splits)
  from res quietD(1,2) [OF q2] quietD(1,2) [OF q3]
  show "fst c + snd c \<le> fst (fst (paragraphs_body d c)) + snd (fst (paragraphs_body d c))"
    by auto
  assume "snd (paragraphs_body d c) = Inr (Some f, msg)"
  with res quietD(3) [OF q3]
  show "0 < fst (fst (paragraphs_body d c)) + snd (fst (paragraphs_body d c))"
    by (auto split: if_splits)
qed

lemma lists_body_quiet:
  "c \<le> fst (lists_body d c)"
  "snd (lists_body d c) = Inr (Some f, msg) \<Longrightarrow> 0 < fst (lists_body d c)"
proof -
  obtain st root where d: "d = (st, root)" by (cases d)
  let ?s0 = "\<lparr>rstore = st, count1 = c, count2 = 0, changed = False\<rparr>"
  let ?r1 = "lists_loop (find_paragraphs st root) ?s0"
  let ?s1 = "fst ?r1"
  have q1: "quiet ?s0 ?s1" by (rule lists_loop_quiet)
  have res: "fst (lists_body d c) = count1 ?s1
      \<and> ((\<exists>e. snd (lists_body d c) = Inl e)
         \<or> (\<exists>x. snd (lists_body d c) = Inr (if count1 ?s1 > 0 then x else (None, None))))"
    unfolding d lists_body_def
    by (cases ?r1) (auto split: option.splits)
  from res quietD(1) [OF q1] show "c \<le> fst (lists_body d c)" by auto
  assume "snd (lists_body d c) = Inr (Some f, msg)"
  with res show "0 < fst (lists_body d c)" by (auto split: if_splits)
qed

lemma images_body_quiet:
  "c \<le> fst (images_body d c)"
  "snd (images_body d c) = Inr (Some f, msg) \<Longrightarrow> 0 < fst (images_body d c)"
proof -
  obtain st root where d: "d = (st, root)" by (cases d)
  let ?s0 = "\<lparr>rstore = st, count1 = c, count2 = 0, changed = False\<rparr>"
  let ?s1 = "img_loop (xpath_tag st root ''img'') ?s0"
  have q1: "quiet ?s0 ?s1" by (rule img_loop_quiet)
  have c2: "count2 ?s1 = 0" by (simp add: img_loop_count2)
  have res: "fst (images_body d c) = count1 ?s1
      \<and> (\<exists>x. snd (images_body d c) = Inr (if changed ?s1 then x else (None, None)))"
    unfolding d images_body_def Let_def by simp
  from res quietD(1) [OF q1] show "c \<le> fst (images_body d c)" by auto
  assume "snd (images_body d c) = Inr (Some f, msg)"
  with res quietD(3) [OF q1] c2 show "0 < fst (images_body d c)" by (auto split: if_splits)
qed

lemma breaks_body_quiet:
  "fst c + snd c \<le> fst (fst (breaks_body d c)) + snd (fst (breaks_body d c))"
  "snd (breaks_body d c) = Inr (Some f, msg)
   \<Longrightarrow> 0 < fst (fst (breaks_body d c)) + snd (fst (breaks_body d c))"
proof -
  obtain st root where d: "d = (st, root)" by (cases d)
  let ?s0 = "\<lparr>rstore = st, count1 = fst c, count2 = snd c, changed = False\<rparr>"
  let ?r1 = "page_break_pass root ?s0"
  let ?s1 = "fst ?r1"
  let ?r2 = "scene_loop (xpath_tag (rstore ?s1) root ''p'') 0 ?s1"
  let ?s2 = "fst ?r2"
  let ?r3 = "br_loop (xpath_br_sequences (rstore ?s2) root) ?s2"
  let ?s3 = "fst ?r3"
  let ?s4 = "style_loop (xpath_page_break_styles (rstore ?s3) root) ?s3"
  have q1: "quiet ?s0 ?s1" unfolding page_break_pass_def by (rule remove_loop_quiet)
  have q2: "quiet ?s0 ?s2" by (rule quiet_trans [OF q1 scene_loop_quiet])
  have q3: "quiet ?s0 ?s3" by (rule quiet_trans [OF q2 br_loop_quiet])
  have q4: "quiet ?s0 ?s4" by (rule quiet_trans [OF q3 style_loop_quiet])
  have res: "fst (breaks_body d c) = (count1 ?s1, count2 ?s1) \<and> (\<exists>e. snd (breaks_body d c) = Inl e)
      \<or> fst (breaks_body d c) = (count1 ?s2, count2 ?s2) \<and> (\<exists>e. snd (breaks_body d c) = Inl e)
      \<or> fst (breaks_body d c) = (count1 ?s3, count2 ?s3) \<and> (\<exists>e. snd (breaks_body d c) = Inl e)
      \<or> fst (breaks_body d c) = (count1 ?s4, count2 ?s4)
        \<and> (\<exists>x. snd (breaks_body d c) = Inr (if changed ?s4 then x else (None, None)))"
    unfolding d breaks_body_def Let_def
    by (cases ?r1; cases ?r2; cases ?r3) (auto split: option.splits)
  from res quietD(1,2) [OF q1] quietD(1,2) [OF q2] quietD(1,2) [OF q3] quietD(1,2) [OF q4]
  show "fst c + snd c \<le> fst (fst (breaks_body d c)) + snd (fst (breaks_body d c))"
    by auto
  assume "snd (breaks_body d c) = Inr (Some f, msg)"
  with res quietD(3) [OF q4]
  show "0 < fst (fst (breaks_body d c)) + snd (fst (breaks_body d c))"
    by (auto split: if_splits)
qed

lemma safe_css_file_quiet:
  "c \<le> fst (safe_css_file rules c)"
  "snd (safe_css_file rules c) = Inr (Some f, msg) \<Longrightarrow> 0 < fst (safe_css_file rules c)"
proof -
  obtain e1 rs1 n1 c1 where p1: "drop_loop font_size_guard font_size_dropped rules c False = (e1, rs1, n1, c1)"
    by (metis prod_cases4)
  obtain e2 rs2 n2 c2 where p2: "drop_loop hasattr_content line_height_dropped rs1 n1 c1 = (e2, rs2, n2, c2)"
    by (metis prod_cases4)
  obtain e3 rs3 n3 c3 where p3: "drop_loop hasattr_content display_dropped rs2 n2 c2 = (e3, rs3, n3, c3)"
    by (metis prod_cases4)
  have a1: "n1 = c \<and> c1 = False" using drop_loop_nothing [OF _ p1] by (simp add: nothing_dropped)
  have a2: "n2 = n1 \<and> c2 = c1" using drop_loop_nothing [OF _ p2] by (simp add: nothing_dropped)
  have a3: "n3 = n2 \<and> c3 = c2" using drop_loop_nothing [OF _ p3] by (simp add: nothing_dropped)
  have res: "fst (safe_css_file rules c) = c
     \<and> ((\<exists>e. snd (safe_css_file rules c) = Inl e) \<or> snd (safe_css_file rules c) = Inr (None, None))"
    using p1 p2 p3 a1 a2 a3
    by (auto simp: safe_css_file_def safe_css_body_def split: option.splits)
  from res show "c \<le> fst (safe_css_file rules c)" by simp
  assume "snd (safe_css_file rules c) = Inr (Some f, msg)"
  with res show "0 < fst (safe_css_file rules c)" by auto
qed

lemma normalize_headings_quiet:
  assumes "counters (snd (normalize_headings book s)) ''headings.converted_fake_headings'' = Some 0"
    and "counters (snd (normalize_headings book s)) ''headings.fixed_nesting'' = Some 0"
  shows "fst (normalize_headings book s) = fst s"
proof -
  obtain w rep a b where fl: "files_loop (Some ''File not found, skipping'') ''Error processing: '' parse_xhtml headings_body
      (get_xhtml_files book) (fst s, snd s, (0, 0)) = (w, rep, (a, b))"
    by (metis prod_cases4)
  have r: "normalize_headings book s = (w, increment (increment rep ''headings.converted_fake_headings'' a) ''headings.fixed_nesting'' b)"
    by (simp add: normalize_headings_def fl)
  from assms have "a = 0" "b = 0"
    unfolding r by (auto simp: counters_increment split: option.splits)
  moreover have "fst (0::nat, 0::nat) + snd (0::nat, 0::nat) \<le> fst (a, b) + snd (a, b)
      \<and> (fst (a, b) + snd (a, b) = 0 \<longrightarrow> w = fst s)"
    by (rule files_loop_quiet [where m = "\<lambda>c. fst c + snd c" and body = headings_body, OF _ _ fl])
       (rule headings_body_quiet(1), erule headings_body_quiet(2))
  ultimately show ?thesis by (simp add: r)
qed

lemma normalize_paragraphs_quiet:
  assumes "counters (snd (normalize_paragraphs_and_indents book s)) ''paragraphs.converted_divs'' = Some 0"
    and "counters (snd (normalize_paragraphs_and_indents book s)) ''paragraphs.removed_br_breaks'' = Some 0"
  shows "fst (normalize_paragraphs_and_indents book s) = fst s"
proof -
  obtain w rep a b where fl: "files_loop None ''Error processing: '' parse_xhtml paragraphs_body
      (get_xhtml_files book) (fst s, snd s, (0, 0)) = (w, rep, (a, b))"
    by (metis prod_cases4)
  have r: "normalize_paragraphs_and_indents book s = (w, increment (increment rep ''paragraphs.converted_divs'' a) ''paragraphs.removed_br_breaks'' b)"
    by (simp add: normalize_paragraphs_and_indents_def fl)
  from assms have "a = 0" "b = 0"
    unfolding r by (auto simp: counters_increment split: option.splits)
  moreover have "fst (0::nat, 0::nat) + snd (0::nat, 0::nat) \<le> fst (a, b) + snd (a, b)
      \<and> (fst (a, b) + snd (a, b) = 0 \<longrightarrow> w = fst s)"
    by (rule files_loop_quiet [where m = "\<lambda>c. fst c + snd c" and body = paragraphs_body, OF _ _ fl])
       (rule paragraphs_body_quiet(1), erule paragraphs_body_quiet(2))
  ultimately show ?thesis by (simp add: r)
qed

lemma normalize_lists_quiet:
  assumes "counters (snd (normalize_lists book s)) ''lists.converted_paragraphs'' = Some 0"
  shows "fst (normalize_lists book s) = fst s"
proof -
  obtain w rep a where fl: "files_loop None ''Error processing: '' parse_xhtml lists_body
      (get_xhtml_files book) (fst s, snd s, 0) = (w, rep, a)"
    by (metis prod_cases3)
  have r: "normalize_lists book s = (w, increment rep ''lists.converted_paragraphs'' a)"
    by (simp add: normalize_lists_def fl)
  from assms have "a = 0"
    unfolding r by (auto simp: counters_increment split: option.splits)
  moreover have "(0::nat) \<le> a \<and> (a = 0 \<longrightarrow> w = fst s)"
    by (rule files_loop_quiet [where m = "\<lambda>c. c" and body = lists_body, OF _ _ fl])
       (auto intro: lists_body_quiet)
  ultimately show ?thesis by (simp add: r)
qed

lemma normalize_breaks_quiet:
  assumes "counters (snd (normalize_context_breaks book s)) ''breaks.normalized_scene_breaks'' = Some 0"
    and "counters (snd (normalize_context_breaks book s)) ''breaks.removed_page_breaks'' = Some 0"
  shows "fst (normalize_context_breaks book s) = fst s"
proof -
  obtain w rep a b where fl: "files_loop None ''Error processing: '' parse_xhtml breaks_body
      (get_xhtml_files book) (fst s, snd s, (0, 0)) = (w, rep, (a, b))"
    by (metis prod_cases4)
  have r: "normalize_context_breaks book s = (w, increment (increment rep ''breaks.normalized_scene_breaks'' a) ''breaks.removed_page_breaks'' b)"
    by (simp add: normalize_context_breaks_def fl)
  from assms have "a = 0" "b = 0"
    unfolding r by (auto simp: counters_increment split: option.splits)
  moreover have "fst (0::nat, 0::nat) + snd (0::nat, 0::nat) \<le> fst (a, b) + snd (a, b)
      \<and> (fst (a, b) + snd (a, b) = 0 \<longrightarrow> w = fst s)"
    by (rule files_loop_quiet [where m = "\<lambda>c. fst c + snd c" and body = breaks_body, OF _ _ fl])
       (rule breaks_body_quiet(1), erule breaks_body_quiet(2))
  ultimately show ?thesis by (simp add: r)
qed

lemma normalize_images_quiet:
  assumes "counters (snd (normalize_images book s)) ''images.added_alt'' = Some 0"
  shows "fst (normalize_images book s) = fst s"
proof -
  obtain w rep a where fl: "files_loop None ''Error processing: '' parse_xhtml images_body
      (get_xhtml_files book) (fst s, snd s, 0) = (w, rep, a)"
    by (metis prod_cases3)
  have r: "normalize_images book s = (w, increment rep ''images.added_alt'' a)"
    by (simp add: normalize_images_def fl)
  from assms have "a = 0"
    unfolding r by (auto simp: counters_increment split: option.splits)
  moreover have "(0::nat) \<le> a \<and> (a = 0 \<longrightarrow> w = fst s)"
    by (rule files_loop_quiet [where m = "\<lambda>c. c" and body = images_body, OF _ _ fl])
       (auto intro: images_body_quiet)
  ultimately show ?thesis by (simp add: r)
qed

lemma simplify_css_safe_quiet:
  assumes "counters (snd (simplify_css_safe book s)) ''css.removed_properties'' = Some 0"
  shows "fst (simplify_css_safe book s) = fst s"
proof -
  obtain w rep a where fl: "files_loop None ''Error processing CSS: '' parse_css safe_css_file
      (get_css_files book (fst s)) (fst s, snd s, 0) = (w, rep, a)"
    by (metis prod_cases3)
  have r: "simplify_css_safe book s
      = (w, increment (increment rep ''css.removed_properties'' a) ''css.modified_properties'' 0)"
    by (simp add: simplify_css_safe_def fl)
  from assms have "a = 0"
    unfolding r by (auto simp: counters_increment split: option.splits)
  moreover have "(0::nat) \<le> a \<and> (a = 0 \<longrightarrow> w = fst s)"
    by (rule files_loop_quiet [where m = "\<lambda>c. c" and body = safe_css_file, OF _ _ fl])
       (auto intro: safe_css_file_quiet)
  ultimately show ?thesis by (simp add: r)
qed

lemma only_touchesD:
  "only_touches K rule \<Longrightarrow> k \<notin> K \<Longrightarrow> counters (snd (rule book s)) k = counters (snd s) k"
  unfolding only_touches_def by blast

text \<open>
  C8, amended. A Safe run that reports zero for every one of its counters has written no
  file: the files are those it was given. Run again on its output, the Safe rule set
  therefore reports zero for every counter again.
\<close>

theorem quiet_safe_run_is_repeated:
  assumes "\<forall>k\<in>safe_keys. counters (snd (run_repair ''safe'' book w)) k = Some 0"
  shows "fst (run_repair ''safe'' book w) = w
    \<and> (\<forall>k\<in>safe_keys. counters (snd (run_repair ''safe'' book (fst (run_repair ''safe'' book w)))) k = Some 0)"
proof -
  define s1 where "s1 = normalize_headings book (w, new_reporter)"
  define s2 where "s2 = normalize_paragraphs_and_indents book s1"
  define s3 where "s3 = normalize_lists book s2"
  define s4 where "s4 = normalize_context_breaks book s3"
  define s5 where "s5 = normalize_images book s4"
  define s6 where "s6 = simplify_css_safe book s5"
  have run: "run_repair ''safe'' book w = s6"
    by (simp add: run_repair_def SAFE_RULES_def s1_def s2_def s3_def s4_def s5_def s6_def)
  have fin: "k \<in> safe_keys \<Longrightarrow> counters (snd s6) k = Some 0" for k
    using assms run by simp
  have f6: "k \<notin> {''css.removed_properties'', ''css.modified_properties''}
      \<Longrightarrow> counters (snd s5) k = counters (snd s6) k" for k
    unfolding s6_def by (rule only_touchesD [OF touches_css_safe, symmetric])
  have f5: "k \<notin> {''images.added_alt''} \<Longrightarrow> counters (snd s4) k = counters (snd s5) k" for k
    unfolding s5_def by (rule only_touchesD [OF touches_images, symmetric])
  have f4: "k \<notin> {''breaks.normalized_scene_breaks'', ''breaks.removed_page_breaks''}
      \<Longrightarrow> counters (snd s3) k = counters (snd s4) k" for k
    unfolding s4_def by (rule only_touchesD [OF touches_breaks, symmetric])
  have f3: "k \<notin> {''lists.converted_paragraphs''} \<Longrightarrow> counters (snd s2) k = counters (snd s3) k" for k
    unfolding s3_def by (rule only_touchesD [OF touches_lists, symmetric])
  have f2: "k \<notin> {''paragraphs.converted_divs'', ''paragraphs.removed_br_breaks''}
      \<Longrightarrow> counters (snd s1) k = counters (snd s2) k" for k
    unfolding s2_def by (rule only_touchesD [OF touches_paragraphs, symmetric])
  have h1: "counters (snd s1) ''headings.converted_fake_headings'' = Some 0"
    "counters (snd s1) ''headings.fixed_nesting'' = Some 0"
    using fin [of "''headings.converted_fake_headings''"] fin [of "''headings.fixed_nesting''"]
    by (simp_all add: f2 f3 f4 f5 f6 safe_keys_def)
  have h2: "counters (snd s2) ''paragraphs.converted_divs'' = Some 0"
    "counters (snd s2) ''paragraphs.removed_br_breaks'' = Some 0"
    using fin [of "''paragraphs.converted_divs''"] fin [of "''paragraphs.removed_br_breaks''"]
    by (simp_all add: f3 f4 f5 f6 safe_keys_def)
  have h3: "counters (snd s3) ''lists.converted_paragraphs'' = Some 0"
    using fin [of "''lists.converted_paragraphs''"]
    by (simp_all add: f4 f5 f6 safe_keys_def)
  have h4: "counters (snd s4) ''breaks.normalized_scene_breaks'' = Some 0"
    "counters (snd s4) ''breaks.removed_page_breaks'' = Some 0"
    using fin [of "''breaks.normalized_scene_breaks''"] fin [of "''breaks.removed_page_breaks''"]
    by (simp_all add: f5 f6 safe_keys_def)
  have h5: "counters (snd s5) ''images.added_alt'' = Some 0"
    using fin [of "''images.added_alt''"]
    by (simp_all add: f6 safe_keys_def)
  have h6: "counters (snd s6) ''css.removed_properties'' = Some 0"
    using fin [of "''css.removed_properties''"] by (simp add: safe_keys_def)
  have "fst s1 = w"
    using normalize_headings_quiet [of book "(w, new_reporter)"] h1 by (simp add: s1_def)
  moreover have "fst s2 = fst s1"
    using normalize_paragraphs_quiet [of book s1] h2 by (simp add: s2_def)
  moreover have "fst s3 = fst s2"
    using normalize_lists_quiet [of book s2] h3 by (simp add: s3_def)
  moreover have "fst s4 = fst s3"
    using normalize_breaks_quiet [of book s3] h4 by (simp add: s4_def)
  moreover have "fst s5 = fst s4"
    using normalize_images_quiet [of book s4] h5 by (simp add: s5_def)
  moreover have "fst s6 = fst s5"
    using simplify_css_safe_quiet [of book s5] h6 by (simp add: s6_def)
  ultimately have same: "fst (run_repair ''safe'' book w) = w"
    by (simp add: run)
  with assms show ?thesis by simp
qed

text \<open>The same on the book of one document of plain text.\<close>

theorem quiet_safe_run_is_repeated_witness:
  "list_all (\<lambda>k. counters (snd (run_repair ''safe'' one_book plain_world)) k = Some 0)
     [''headings.converted_fake_headings'', ''headings.fixed_nesting'',
      ''paragraphs.converted_divs'', ''paragraphs.removed_br_breaks'', ''lists.converted_paragraphs'',
      ''breaks.normalized_scene_breaks'', ''breaks.removed_page_breaks'', ''images.added_alt'',
      ''css.removed_properties'', ''css.modified_properties'']
   \<and> fst (run_repair ''safe'' one_book plain_world) = plain_world
   \<and> counters (snd (run_repair ''safe'' one_book (fst (run_repair ''safe'' one_book plain_world))))
        ''paragraphs.converted_divs'' = Some 0"
proof -
  have z: "list_all (\<lambda>k. counters (snd (run_repair ''safe'' one_book plain_world)) k = Some 0)
     [''headings.converted_fake_headings'', ''headings.fixed_nesting'',
      ''paragraphs.converted_divs'', ''paragraphs.removed_br_breaks'', ''lists.converted_paragraphs'',
      ''breaks.normalized_scene_breaks'', ''breaks.removed_page_breaks'', ''images.added_alt'',
      ''css.removed_properties'', ''css.modified_properties'']"
    by code_simp
  then have "\<forall>k\<in>safe_keys. counters (snd (run_repair ''safe'' one_book plain_world)) k = Some 0"
    by (simp add: safe_keys_def)
  from quiet_safe_run_is_repeated [OF this] z show ?thesis
    by (simp add: safe_keys_def)
qed

subsection \<open>The break classifier on a document\<close>








































subsection \<open>Counterexamples\<close>



text \<open>
  Counterexample to C8. On a book whose one document is \<open><div>text<p></p></div>\<close>, the
  first Safe run leaves the div alone (it has a paragraph child) and removes the empty
  paragraph as a page break; the second Safe run then converts the div, which now holds
  text only: its count of converted divs is 1.
\<close>

theorem second_safe_run_converts_div:
  "counters (snd (run_repair ''safe'' one_book (fst (run_repair ''safe'' one_book div_world))))
     ''paragraphs.converted_divs'' = Some 1"
  by code_simp


end
